theory Spec2Isabelle
  imports Complex_Main "HOL-Library.Log_Nat" "HOL-Library.Word"
begin

section \<open>Python numbers\<close>

text \<open>
  The program is Python 3 with numpy. Python integers are unbounded and are modelled by
  \<open>int\<close>. A Python \<open>float\<close> is an IEEE 754 binary64 value and the numpy image arrays
  of the pixel pipeline are \<open>float32\<close> (\<open>ImgFloatType\<close>); every finite float is a
  rational number, so floats are modelled by \<open>rat\<close>, and each arithmetic operation is
  the exact operation followed by rounding to the nearest representable value, ties to
  even (\<open>fl64\<close>, \<open>fl32\<close>). Overflow to infinity (magnitudes from \<open>2 ^ 1024\<close>, resp.
  \<open>2 ^ 128\<close>) is not modelled; no quantity below comes near it.
\<close>

datatype py_error =
  ZeroDivisionError | ValueError | OverflowError | StructError | IndexError | AttributeError
  | Unspecified

text \<open>All but the last are Python exceptions (\<open>StructError\<close> is \<open>struct.error\<close>).
  \<open>Unspecified\<close> marks a step whose result numpy does not define (the cast of a float
  outside the range of the integer type): the model stops there.\<close>

text \<open>\<open>round(v)\<close> of a float: nearest integer, ties to the even one.\<close>

definition py_round :: "rat \<Rightarrow> int" where
  "py_round v = (let f = \<lfloor>v\<rfloor>; d = v - of_int f in
     if d < 1 / 2 then f else if 1 / 2 < d then f + 1 else if even f then f else f + 1)"

text \<open>\<open>int(v)\<close> of a float, and numpy's \<open>astype\<close> to an integer type: truncation
  towards zero.\<close>

definition py_int :: "rat \<Rightarrow> int" where
  "py_int v = (if 0 \<le> v then \<lfloor>v\<rfloor> else \<lceil>v\<rceil>)"

text \<open>\<open>ilog2 v\<close> is the binary exponent of a positive rational: \<open>2 powi ilog2 v \<le> v
  < 2 powi (ilog2 v + 1)\<close>.\<close>

definition ilog2 :: "rat \<Rightarrow> int" where
  "ilog2 v = (let (a, b) = quotient_of v; d = bitlen a - bitlen b
     in if 2 powi d \<le> v then d else d - 1)"

text \<open>Rounding to a binary format with \<open>p\<close> significant bits whose smallest
  subnormal is \<open>2 powi emin\<close>.\<close>

definition fl_round :: "nat \<Rightarrow> int \<Rightarrow> rat \<Rightarrow> rat" where
  "fl_round p emin v = (if v = 0 then 0 else
     let e = max (ilog2 \<bar>v\<bar> - (int p - 1)) emin
     in of_int (py_round (v / 2 powi e)) * 2 powi e)"

definition fl64 :: "rat \<Rightarrow> rat" where
  "fl64 = fl_round 53 (- 1074)"

definition fl32 :: "rat \<Rightarrow> rat" where
  "fl32 = fl_round 24 (- 149)"

text \<open>A Python number is an \<open>int\<close> or a \<open>float\<close>; mixed arithmetic converts the
  \<open>int\<close> operand to \<open>float\<close> first, and \<open>int / int\<close> is the correctly rounded
  quotient.\<close>

datatype pynum = PyInt int | PyFloat rat

fun as_float :: "pynum \<Rightarrow> rat" where
  "as_float (PyInt n) = fl64 (of_int n)"
| "as_float (PyFloat v) = v"

fun num_val :: "pynum \<Rightarrow> rat" where
  "num_val (PyInt n) = of_int n"
| "num_val (PyFloat v) = v"

fun py_mul :: "pynum \<Rightarrow> pynum \<Rightarrow> pynum" where
  "py_mul (PyInt a) (PyInt b) = PyInt (a * b)"
| "py_mul a b = PyFloat (fl64 (as_float a * as_float b))"

fun py_truediv :: "pynum \<Rightarrow> pynum \<Rightarrow> py_error + pynum" where
  "py_truediv (PyInt a) (PyInt b) =
     (if b = 0 then Inl ZeroDivisionError else Inr (PyFloat (fl64 (of_int a / of_int b))))"
| "py_truediv a b =
     (if num_val b = 0 then Inl ZeroDivisionError
      else Inr (PyFloat (fl64 (as_float a / as_float b))))"

text \<open>Comparison of numbers is exact, also between an \<open>int\<close> and a \<open>float\<close>.\<close>

definition py_less :: "pynum \<Rightarrow> pynum \<Rightarrow> bool" where
  "py_less a b = (num_val a < num_val b)"

fun py_round_num :: "pynum \<Rightarrow> int" where
  "py_round_num (PyInt n) = n"
| "py_round_num (PyFloat v) = py_round v"

text \<open>\<open>a / b\<close> for two ints with a divisor known to be non-zero (the literal \<open>2\<close>).\<close>

definition int_truediv :: "int \<Rightarrow> int \<Rightarrow> rat" where
  "int_truediv a b = fl64 (of_int a / of_int b)"

section \<open>Geometry planner\<close>

datatype Alignment = CENTER | TOP | LEFT | BOTTOM | RIGHT
datatype ResizeGeom = NONE | MINIMUM | FULL

record Dimensions =
  columns :: int
  rows :: int

text \<open>The fields \<open>x\<close>, \<open>y\<close> of the source's \<open>Coordinate\<close> are named \<open>coord_x\<close>,
  \<open>coord_y\<close> here.\<close>

record Coordinate =
  coord_x :: int
  coord_y :: int

record Rect =
  startx :: int
  starty :: int
  endx :: int
  endy :: int

record SrcGeomAdjustments =
  resizeDimensions :: "Dimensions option"
  posInTgt :: Coordinate
  cropRect :: "Rect option"

fun calcAxisCrop :: "int \<Rightarrow> int \<Rightarrow> Alignment \<Rightarrow> int \<times> int" where
  "calcAxisCrop srcAmount tgtAmount alignment =
     (if srcAmount \<le> tgtAmount then (0, srcAmount)
      else let amountToCrop = srcAmount - tgtAmount in
        (case alignment of
           LEFT \<Rightarrow> (0, tgtAmount)
         | TOP \<Rightarrow> (0, tgtAmount)
         | CENTER \<Rightarrow>
             (py_round (int_truediv amountToCrop 2),
              py_round (fl64 (fl64 (fl64 (of_int srcAmount) - int_truediv amountToCrop 2)
                               - fl64 (of_int (amountToCrop mod 2)))))
         | RIGHT \<Rightarrow> (amountToCrop, tgtAmount)
         | BOTTOM \<Rightarrow> (amountToCrop, tgtAmount)))"

fun calcAxisPos :: "int \<Rightarrow> int \<Rightarrow> Alignment \<Rightarrow> int" where
  "calcAxisPos srcAmount tgtAmount alignment =
     (if srcAmount \<ge> tgtAmount then 0
      else (case alignment of
           LEFT \<Rightarrow> 0
         | TOP \<Rightarrow> 0
         | CENTER \<Rightarrow> py_int (fl64 (int_truediv tgtAmount 2 - int_truediv srcAmount 2))
         | RIGHT \<Rightarrow> tgtAmount - srcAmount
         | BOTTOM \<Rightarrow> tgtAmount - srcAmount))"

text \<open>The enlargement of \<open>calcSrcGeomAdjustments\<close>: \<open>None\<close> when no resize is planned.\<close>

definition calcResize ::
  "Dimensions \<Rightarrow> Dimensions \<Rightarrow> ResizeGeom \<Rightarrow> bool \<Rightarrow> py_error + Dimensions option" where
  "calcResize srcDimensions tgtDimensions resizeGeom fMaintainAspectRatio =
     (if columns srcDimensions \<ge> columns tgtDimensions \<and> rows srcDimensions \<ge> rows tgtDimensions
      then Inr None
      else (case resizeGeom of
        MINIMUM \<Rightarrow>
          (if \<not> fMaintainAspectRatio then
             (if columns srcDimensions < columns tgtDimensions
              then Inr (Some \<lparr>columns = columns tgtDimensions, rows = rows srcDimensions\<rparr>)
              else Inr (Some \<lparr>columns = columns srcDimensions, rows = rows tgtDimensions\<rparr>))
           else
             (case py_truediv (PyInt (columns tgtDimensions)) (PyInt (columns srcDimensions)) of
                Inl e \<Rightarrow> Inl e
              | Inr columnMultiplier \<Rightarrow>
             (case py_truediv (PyInt (rows tgtDimensions)) (PyInt (rows srcDimensions)) of
                Inl e \<Rightarrow> Inl e
              | Inr rowMultiplier \<Rightarrow>
                  (if py_less columnMultiplier rowMultiplier
                   then Inr (Some \<lparr>columns = columns tgtDimensions,
                          rows = py_round_num (py_mul (PyInt (rows srcDimensions)) columnMultiplier)\<rparr>)
                   else Inr (Some \<lparr>columns =
                            py_round_num (py_mul (PyInt (columns srcDimensions)) rowMultiplier),
                          rows = rows tgtDimensions\<rparr>)))))
      | FULL \<Rightarrow>
          (case (if columns srcDimensions < columns tgtDimensions
                 then py_truediv (PyInt (columns tgtDimensions)) (PyInt (columns srcDimensions))
                 else Inr (PyInt 1)) of
             Inl e \<Rightarrow> Inl e
           | Inr columnMultiplier \<Rightarrow>
          (case (if py_less (py_mul (PyInt (rows srcDimensions)) columnMultiplier)
                      (PyInt (rows tgtDimensions))
                 then py_truediv (PyInt (rows tgtDimensions))
                        (py_mul (PyInt (rows srcDimensions)) columnMultiplier)
                 else Inr (PyInt 1)) of
             Inl e \<Rightarrow> Inl e
           | Inr rowMultiplier \<Rightarrow>
               (let totalMultiplier = py_mul columnMultiplier rowMultiplier in
                Inr (Some \<lparr>columns =
                       py_round_num (py_mul (PyInt (columns srcDimensions)) totalMultiplier),
                     rows = py_round_num (py_mul (PyInt (rows srcDimensions)) totalMultiplier)\<rparr>))))
      | NONE \<Rightarrow> Inr None))"

definition calcSrcGeomAdjustments ::
  "Dimensions \<Rightarrow> Dimensions \<Rightarrow> ResizeGeom \<Rightarrow> bool \<Rightarrow> Alignment \<Rightarrow> Alignment
     \<Rightarrow> py_error + SrcGeomAdjustments option" where
  "calcSrcGeomAdjustments srcDimensions tgtDimensions resizeGeom fMaintainAspectRatio
       horzAlignment vertAlignment =
     (if srcDimensions = tgtDimensions then Inr None
      else (case calcResize srcDimensions tgtDimensions resizeGeom fMaintainAspectRatio of
        Inl e \<Rightarrow> Inl e
      | Inr resizeDims \<Rightarrow>
          (let newDimensions = (case resizeDims of Some d \<Rightarrow> d | None \<Rightarrow> srcDimensions);
               pos = \<lparr>coord_x = calcAxisPos (columns newDimensions) (columns tgtDimensions) horzAlignment,
                      coord_y = calcAxisPos (rows newDimensions) (rows tgtDimensions) vertAlignment\<rparr>;
               crop =
                 (if columns newDimensions \<le> columns tgtDimensions
                     \<and> rows newDimensions \<le> rows tgtDimensions
                  then None
                  else (let (sx, ex) = calcAxisCrop (columns newDimensions) (columns tgtDimensions)
                                         horzAlignment;
                            (sy, ey) = calcAxisCrop (rows newDimensions) (rows tgtDimensions)
                                         vertAlignment
                        in Some \<lparr>startx = sx, starty = sy, endx = ex, endy = ey\<rparr>))
           in Inr (Some \<lparr>resizeDimensions = resizeDims, posInTgt = pos, cropRect = crop\<rparr>))))"

section \<open>The output buffer\<close>

type_synonym byte = "8 word"

text \<open>
  Python's slice assignment \<open>buf[a:b] = dat\<close> on a \<open>bytearray\<close>, for \<open>a\<close> and
  \<open>b\<close> that are not negative (every offset of the program is parsed from a string of
  digits). Both bounds are clipped to the length of the buffer, the clipped slice is
  removed and \<open>dat\<close> is put in its place, whatever its length: the buffer grows when the
  slice reaches beyond its end.
\<close>

definition slice_assign :: "nat \<Rightarrow> nat \<Rightarrow> 'a list \<Rightarrow> 'a list \<Rightarrow> 'a list" where
  "slice_assign a b dat buf =
     (let n = length buf; lo = min a n; hi = max lo (min b n)
      in take lo buf @ dat @ drop hi buf)"

text \<open>The read \<open>buf[a:b]\<close>.\<close>

definition slice :: "nat \<Rightarrow> nat \<Rightarrow> 'a list \<Rightarrow> 'a list" where
  "slice a b buf = take (b - a) (drop a buf)"

text \<open>\<open>struct.pack('<I', n)\<close>: four bytes, least significant first; \<open>struct.error\<close>
  when \<open>n\<close> does not fit 32 bits.\<close>

definition struct_pack_le32 :: "nat \<Rightarrow> py_error + byte list" where
  "struct_pack_le32 n =
     (if n < 2 ^ 32
      then Inr [of_nat n, of_nat (n div 256), of_nat (n div 65536), of_nat (n div 16777216)]
      else Inl StructError)"

text \<open>The unsigned 32-bit little-endian value stored at offset \<open>off\<close> of a buffer.\<close>

definition read_le32 :: "byte list \<Rightarrow> nat \<Rightarrow> nat" where
  "read_le32 buf off =
     unat (buf ! off) + 256 * unat (buf ! (off + 1)) + 65536 * unat (buf ! (off + 2))
       + 16777216 * unat (buf ! (off + 3))"

text \<open>The fields \<open>start\<close> and \<open>length\<close> of the source's \<open>EmbeddedJpgExifInfo\<close> are
  named \<open>jpgStart\<close> and \<open>jpgLength\<close> here.\<close>

record EmbeddedJpgExifInfo =
  exifName :: string
  jpgStart :: nat
  jpgLength :: nat
  offsetToLengthField :: nat

record WhiteBalanceMultipliers =
  red :: rat
  blue :: rat

text \<open>The fields of \<open>Config.exif\<close> that the modelled functions read. All of them are
  parsed from digits, so none is negative.\<close>

record Exif =
  rawDimensions :: Dimensions
  stripOffset :: nat
  fileOffsetToStripByteCount :: nat
  wbMultipliers :: WhiteBalanceMultipliers
  blackLevel :: nat
  embeddedJpgs :: "EmbeddedJpgExifInfo list"

text \<open>
  \<open>writeOutputNEF\<close>, the assembly of \<open>newNefData\<close>: \<open>templateNefData\<close> is what
  \<open>f.read(stripOffset)\<close> returned, the first \<open>stripOffset\<close> bytes of the template
  file or all of it when it is shorter.
\<close>

definition writeOutputNEF_newNefData :: "Exif \<Rightarrow> byte list \<Rightarrow> byte list \<Rightarrow> py_error + byte list" where
  "writeOutputNEF_newNefData exif templateFile encodedImageData =
     (let encodedImageDataSize = length encodedImageData;
          templateNefSizeExcludingRawData = stripOffset exif;
          templateNefData = take templateNefSizeExcludingRawData templateFile;
          newNefData0 = replicate (templateNefSizeExcludingRawData + encodedImageDataSize) 0;
          newNefData1 = slice_assign 0 templateNefSizeExcludingRawData templateNefData newNefData0;
          newNefData2 = slice_assign templateNefSizeExcludingRawData (length newNefData1)
                          encodedImageData newNefData1
      in (case struct_pack_le32 encodedImageDataSize of
            Inl e \<Rightarrow> Inl e
          | Inr packed \<Rightarrow>
              Inr (slice_assign (fileOffsetToStripByteCount exif)
                     (fileOffsetToStripByteCount exif + 4) packed newNefData2)))"

text \<open>A call of \<open>printE\<close> or \<open>printW\<close>, identified by fixed words of its message (a
  warning shows when the verbosity allows it). What \<open>printI\<close>, \<open>printV\<close> and
  \<open>printD\<close> print is not recorded.\<close>

datatype message = PrintE string | PrintW string

text \<open>
  The image libraries are outside the program: OpenCV's JPEG decoder, of which only the
  dimensions of the decoded image are used (\<open>None\<close> when it cannot decode), Pillow's
  encoder applied to the preview source resized to the wanted dimensions at a quality, and
  the drawing and encoding of the placeholder. \<open>'img\<close> is the type of the 8-bit preview
  source.
\<close>

record 'img JpgTools =
  decodeDims :: "byte list \<Rightarrow> Dimensions option"
  encodeJpg :: "'img \<Rightarrow> Dimensions \<Rightarrow> nat \<Rightarrow> byte list"
  placeholderJpg :: "Dimensions \<Rightarrow> string \<Rightarrow> byte list"

function generateEmbeddedJpg_loop :: "(nat \<Rightarrow> byte list) \<Rightarrow> nat \<Rightarrow> nat \<Rightarrow> byte list option" where
  "generateEmbeddedJpg_loop save maxSizeBytes quality =
     (let jpg = save quality in
      if length jpg \<le> maxSizeBytes then Some jpg
      else if quality \<le> 20 then None
      else generateEmbeddedJpg_loop save maxSizeBytes (quality - 10))"
  by pat_completeness auto
termination
  by (relation "measure (\<lambda>(save, maxSizeBytes, quality). quality)") auto

declare generateEmbeddedJpg_loop.simps [simp del]

definition generateEmbeddedJpg ::
  "'img JpgTools \<Rightarrow> 'img \<Rightarrow> Dimensions \<Rightarrow> nat \<Rightarrow> byte list option" where
  "generateEmbeddedJpg tools img embeddedJpgDimensions maxSizeBytes =
     generateEmbeddedJpg_loop (encodeJpg tools img embeddedJpgDimensions) maxSizeBytes 100"

definition generatePlaceholderEmbeddedJpg ::
  "'img JpgTools \<Rightarrow> Dimensions \<Rightarrow> nat \<Rightarrow> string \<Rightarrow> byte list option" where
  "generatePlaceholderEmbeddedJpg tools embeddedJpgDimensions maxSizeBytes embeddedJpgExifName =
     (let jpg = placeholderJpg tools embeddedJpgDimensions embeddedJpgExifName in
      if length jpg > maxSizeBytes then None else Some jpg)"

text \<open>The replacement for one record (the image, else the placeholder), \<open>None\<close> when
  neither fits.\<close>

definition newEmbeddedJpg ::
  "'img JpgTools \<Rightarrow> 'img option \<Rightarrow> Dimensions \<Rightarrow> EmbeddedJpgExifInfo \<Rightarrow> byte list option" where
  "newEmbeddedJpg tools image8 dimensions embeddedJpgExif =
     (case (case image8 of
              Some img \<Rightarrow> generateEmbeddedJpg tools img dimensions (jpgLength embeddedJpgExif)
            | None \<Rightarrow> None) of
        Some jpg \<Rightarrow> Some jpg
      | None \<Rightarrow> generatePlaceholderEmbeddedJpg tools dimensions (jpgLength embeddedJpgExif)
                  (exifName embeddedJpgExif))"

text \<open>The overwrite of one record: the new bytes, the zero fill of the unused part, the
  length field.\<close>

definition overwriteEmbeddedJpg ::
  "EmbeddedJpgExifInfo \<Rightarrow> byte list \<Rightarrow> byte list \<Rightarrow> py_error + byte list" where
  "overwriteEmbeddedJpg embeddedJpgExif embeddedJpg newNefData =
     (let origJpgStart = jpgStart embeddedJpgExif;
          origJpgSize = jpgLength embeddedJpgExif;
          newJpgSizeBytes = length embeddedJpg;
          d1 = slice_assign origJpgStart (origJpgStart + newJpgSizeBytes) embeddedJpg newNefData;
          d2 = (if newJpgSizeBytes < origJpgSize
                then slice_assign (origJpgStart + newJpgSizeBytes) (origJpgStart + origJpgSize)
                       (replicate (origJpgSize - newJpgSizeBytes) 0) d1
                else d1)
      in (case struct_pack_le32 newJpgSizeBytes of
            Inl e \<Rightarrow> Inl e
          | Inr packed \<Rightarrow>
              Inr (slice_assign (offsetToLengthField embeddedJpgExif)
                     (offsetToLengthField embeddedJpgExif + 4) packed d2)))"

text \<open>
  \<open>generateAndInsertEmbeddedJpgs\<close>, the loop over the records. \<open>image8\<close> is the 8-bit
  preview source the function prepares before the loop, \<open>None\<close> when there is none. The
  result is the returned flag, the buffer, and the records the loop overwrote (those it
  reports with \<open>Overwriting ...\<close>), in order. \<open>Inl\<close> is an exception that nothing
  catches.
\<close>

fun generateAndInsertEmbeddedJpgs ::
  "'img JpgTools \<Rightarrow> 'img option \<Rightarrow> EmbeddedJpgExifInfo list \<Rightarrow> byte list
     \<Rightarrow> py_error + (bool \<times> byte list \<times> EmbeddedJpgExifInfo list)" where
  "generateAndInsertEmbeddedJpgs tools image8 [] newNefData = Inr (False, newNefData, [])"
| "generateAndInsertEmbeddedJpgs tools image8 (embeddedJpgExif # rest) newNefData =
     (case decodeDims tools (slice (jpgStart embeddedJpgExif)
               (jpgStart embeddedJpgExif + jpgLength embeddedJpgExif) newNefData) of
        None \<Rightarrow> Inr (True, newNefData, [])
      | Some dimensions \<Rightarrow>
          (case newEmbeddedJpg tools image8 dimensions embeddedJpgExif of
             None \<Rightarrow> generateAndInsertEmbeddedJpgs tools image8 rest newNefData
           | Some embeddedJpg \<Rightarrow>
               (case overwriteEmbeddedJpg embeddedJpgExif embeddedJpg newNefData of
                  Inl e \<Rightarrow> Inl e
                | Inr newNefData' \<Rightarrow>
                    (case generateAndInsertEmbeddedJpgs tools image8 rest newNefData' of
                       Inl e \<Rightarrow> Inl e
                     | Inr (fError, newNefData'', done) \<Rightarrow>
                         Inr (fError, newNefData'', embeddedJpgExif # done)))))"

text \<open>
  What the loop of \<open>generateAndInsertEmbeddedJpgs\<close> prints: the warnings of
  \<open>generateEmbeddedJpg\<close> and \<open>generatePlaceholderEmbeddedJpg\<close> for a replacement that
  does not fit, and the error of \<open>getEmbeddedJpgDimensions\<close>, after which the function
  returns.
\<close>

definition newEmbeddedJpg_printed ::
  "'img JpgTools \<Rightarrow> 'img option \<Rightarrow> Dimensions \<Rightarrow> EmbeddedJpgExifInfo \<Rightarrow> message list" where
  "newEmbeddedJpg_printed tools image8 dimensions embeddedJpgExif =
     (case image8 of
        Some img \<Rightarrow>
          (case generateEmbeddedJpg tools img dimensions (jpgLength embeddedJpgExif) of
             Some jpg \<Rightarrow> []
           | None \<Rightarrow>
               PrintW ''Unable to generate embedded jpg''
                 # (case generatePlaceholderEmbeddedJpg tools dimensions (jpgLength embeddedJpgExif)
                            (exifName embeddedJpgExif) of
                      Some jpg \<Rightarrow> []
                    | None \<Rightarrow> [PrintW ''Unable to generate placeholder embedded jpg'']))
      | None \<Rightarrow>
          (case generatePlaceholderEmbeddedJpg tools dimensions (jpgLength embeddedJpgExif)
                  (exifName embeddedJpgExif) of
             Some jpg \<Rightarrow> []
           | None \<Rightarrow> [PrintW ''Unable to generate placeholder embedded jpg'']))"

fun generateAndInsertEmbeddedJpgs_printed ::
  "'img JpgTools \<Rightarrow> 'img option \<Rightarrow> EmbeddedJpgExifInfo list \<Rightarrow> byte list \<Rightarrow> message list" where
  "generateAndInsertEmbeddedJpgs_printed tools image8 [] newNefData = []"
| "generateAndInsertEmbeddedJpgs_printed tools image8 (embeddedJpgExif # rest) newNefData =
     (case decodeDims tools (slice (jpgStart embeddedJpgExif)
               (jpgStart embeddedJpgExif + jpgLength embeddedJpgExif) newNefData) of
        None \<Rightarrow> [PrintE ''Unable to decode embedded jpg'']
      | Some dimensions \<Rightarrow>
          newEmbeddedJpg_printed tools image8 dimensions embeddedJpgExif
            @ (case newEmbeddedJpg tools image8 dimensions embeddedJpgExif of
                 None \<Rightarrow> generateAndInsertEmbeddedJpgs_printed tools image8 rest newNefData
               | Some embeddedJpg \<Rightarrow>
                   (case overwriteEmbeddedJpg embeddedJpgExif embeddedJpg newNefData of
                      Inl e \<Rightarrow> []
                    | Inr newNefData' \<Rightarrow>
                        generateAndInsertEmbeddedJpgs_printed tools image8 rest newNefData')))"

text \<open>
  \<open>writeOutputNEF\<close>. What lies outside the program is given:
  \<^item> \<open>templateFile\<close>, the bytes of the template, \<open>None\<close> when opening or reading it
    raises;
  \<^item> \<open>image8\<close>, the outcome of the first part of \<open>generateAndInsertEmbeddedJpgs\<close>, which
    loads the image of the option \<open>embeddedimg\<close> or takes the processed source image and
    converts it with OpenCV: what it prints and the 8-bit preview source, \<open>None\<close> when there
    is no image;
  \<^item> \<open>outputFilename\<close>, the outcome of \<open>generateOutputFilename\<close>, which consults the options
    and the file system: what it prints and the name, \<open>None\<close> when it finds none;
  \<^item> \<open>writeFile name bytes\<close>, true when the output file is created and written, false when
    that raises;
  \<^item> \<open>openinviewer\<close>, \<open>None\<close> when the option is not set, else the function that tells
    whether the viewer opens the file without raising.

  The flag that \<open>generateAndInsertEmbeddedJpgs\<close> returns is ignored. The result is the
  calls of \<open>printE\<close> and \<open>printW\<close>, the returned flag and the bytes of the output file, if
  it was written. \<open>Inl\<close> is an exception that nothing catches; what was printed before it
  is not recorded.
\<close>

definition writeOutputNEF ::
  "Exif \<Rightarrow> 'img JpgTools \<Rightarrow> byte list option \<Rightarrow> py_error + message list \<times> 'img option
     \<Rightarrow> py_error + message list \<times> string option \<Rightarrow> (string \<Rightarrow> byte list \<Rightarrow> bool)
     \<Rightarrow> (string \<Rightarrow> bool) option \<Rightarrow> byte list
     \<Rightarrow> py_error + message list \<times> bool \<times> byte list option" where
  "writeOutputNEF exif tools templateFile image8 outputFilename writeFile openinviewer encodedImageData =
     (case templateFile of
        None \<Rightarrow> Inr ([PrintE ''Unable to open/read template NEF''], True, None)
      | Some tf \<Rightarrow>
          (case writeOutputNEF_newNefData exif tf encodedImageData of
             Inl e \<Rightarrow> Inl e
           | Inr newNefData \<Rightarrow>
               (case image8 of
                  Inl e \<Rightarrow> Inl e
                | Inr (loadMsgs, img8) \<Rightarrow>
                    (case generateAndInsertEmbeddedJpgs tools img8 (embeddedJpgs exif) newNefData of
                       Inl e \<Rightarrow> Inl e
                     | Inr (fError, newNefData', done) \<Rightarrow>
                         (let jpgMsgs =
                                loadMsgs
                                  @ (case img8 of
                                       None \<Rightarrow> [PrintW ''No image available for embedded jpgs - will generate a placeholder image'']
                                     | Some i \<Rightarrow> [])
                                  @ generateAndInsertEmbeddedJpgs_printed tools img8 (embeddedJpgs exif)
                                      newNefData
                          in (case outputFilename of
                                Inl e \<Rightarrow> Inl e
                              | Inr (nameMsgs, None) \<Rightarrow> Inr (jpgMsgs @ nameMsgs, True, None)
                              | Inr (nameMsgs, Some name) \<Rightarrow>
                                  if name = [] then Inr (jpgMsgs @ nameMsgs, True, None)
                                  else if writeFile name newNefData'
                                  then Inr (jpgMsgs @ nameMsgs
                                              @ (case openinviewer of
                                                   None \<Rightarrow> []
                                                 | Some opens \<Rightarrow>
                                                     if opens name then []
                                                     else [PrintW ''Unable to open file in your OS's file viewer'']),
                                            False, Some newNefData')
                                  else Inr (jpgMsgs @ nameMsgs
                                              @ [PrintE ''Unable to create/write output NEF''],
                                            True, None)))))))"

text \<open>Auxiliary notions for the statements below: the buffer after the first two writes of
  \<open>overwriteEmbeddedJpg\<close>; an index that lies in neither range of a record; a record
  whose two ranges end inside a buffer of length \<open>n\<close>.\<close>

definition jpg_written :: "EmbeddedJpgExifInfo \<Rightarrow> byte list \<Rightarrow> byte list \<Rightarrow> byte list" where
  "jpg_written e jpg buf =
     (let d1 = slice_assign (jpgStart e) (jpgStart e + length jpg) jpg buf in
      if length jpg < jpgLength e
      then slice_assign (jpgStart e + length jpg) (jpgStart e + jpgLength e)
             (replicate (jpgLength e - length jpg) 0) d1
      else d1)"

definition untouched :: "EmbeddedJpgExifInfo \<Rightarrow> nat \<Rightarrow> bool" where
  "untouched e i \<longleftrightarrow> (i < jpgStart e \<or> jpgStart e + jpgLength e \<le> i)
                     \<and> (i < offsetToLengthField e \<or> offsetToLengthField e + 4 \<le> i)"

definition inside :: "EmbeddedJpgExifInfo \<Rightarrow> nat \<Rightarrow> bool" where
  "inside e n \<longleftrightarrow> jpgStart e + jpgLength e \<le> n \<and> offsetToLengthField e + 4 \<le> n"

section \<open>Numpy sources\<close>

text \<open>
  A two-dimensional numpy array is its shape and its elements by row and column; a
  three-dimensional one has channels as its last axis. Values outside the shape do not
  matter. Samples are \<open>uint16\<close>.
\<close>

type_synonym u16 = "16 word"

record 'a array2 =
  nrows :: nat
  ncols :: nat
  at2 :: "nat \<Rightarrow> nat \<Rightarrow> 'a"

record 'a array3 =
  nrows3 :: nat
  ncols3 :: nat
  nchan :: nat
  at3 :: "nat \<Rightarrow> nat \<Rightarrow> nat \<Rightarrow> 'a"

definition elems2 :: "'a array2 \<Rightarrow> 'a list" where
  "elems2 a = concat (map (\<lambda>r. map (at2 a r) [0..<ncols a]) [0..<nrows a])"

definition elems3 :: "'a array3 \<Rightarrow> 'a list" where
  "elems3 a = concat (map (\<lambda>r. concat (map (\<lambda>c. map (at3 a r c) [0..<nchan a]) [0..<ncols3 a]))
                 [0..<nrows3 a])"

text \<open>What \<open>np.load\<close> can return: an array of another dtype, a \<open>uint16\<close> array of two
  or three dimensions, or a \<open>uint16\<close> array of another number of dimensions.\<close>

datatype ndarray = OtherDtype | U16_2D "u16 array2" | U16_3D "u16 array3" | U16_ND

text \<open>\<open>np.full((rows, columns), value, dtype=np.uint16)\<close>: a Python integer outside
  \<open>uint16\<close> is refused with \<open>OverflowError\<close>.\<close>

definition np_full :: "nat \<Rightarrow> nat \<Rightarrow> nat \<Rightarrow> py_error + u16 array2" where
  "np_full r c v =
     (if v < 2 ^ 16 then Inr \<lparr>nrows = r, ncols = c, at2 = (\<lambda>i j. of_nat v)\<rparr>
      else Inl OverflowError)"

text \<open>
  A slice \<open>a:b:step\<close> of an axis of extent \<open>n\<close>, for a positive step: a negative bound
  counts from the end, both bounds are clipped to the axis; the result is the first index and
  the number of indices.
\<close>

definition clip_index :: "int \<Rightarrow> nat \<Rightarrow> int" where
  "clip_index i n = (if i < 0 then max 0 (i + int n) else min i (int n))"

definition slice_range :: "int \<Rightarrow> int \<Rightarrow> nat \<Rightarrow> nat \<Rightarrow> nat \<times> nat" where
  "slice_range a b step n =
     (let lo = clip_index a n; hi = clip_index b n
      in (nat lo, (nat (hi - lo) + step - 1) div step))"

text \<open>The read \<open>src[ya:yb, xa:xb]\<close> and, for three dimensions, \<open>src[ya:yb, xa:xb, k]\<close>.\<close>

definition np_getitem2 :: "'a array2 \<Rightarrow> int \<times> int \<Rightarrow> int \<times> int \<Rightarrow> 'a array2" where
  "np_getitem2 src ys xs =
     (let (y0, h) = slice_range (fst ys) (snd ys) 1 (nrows src);
          (x0, w) = slice_range (fst xs) (snd xs) 1 (ncols src)
      in \<lparr>nrows = h, ncols = w, at2 = (\<lambda>r c. at2 src (y0 + r) (x0 + c))\<rparr>)"

definition np_getitem3 :: "'a array3 \<Rightarrow> int \<times> int \<Rightarrow> int \<times> int \<Rightarrow> nat \<Rightarrow> 'a array2" where
  "np_getitem3 src ys xs k =
     (let (y0, h) = slice_range (fst ys) (snd ys) 1 (nrows3 src);
          (x0, w) = slice_range (fst xs) (snd xs) 1 (ncols3 src)
      in \<lparr>nrows = h, ncols = w, at2 = (\<lambda>r c. at3 src (y0 + r) (x0 + c) k)\<rparr>)"

text \<open>
  The assignment \<open>dst[ya:yb:ystep, xa:xb:xstep] = v\<close>. The value is broadcast to the
  shape of the selection: on each axis its extent is that of the selection, or 1; otherwise
  numpy raises \<open>ValueError\<close>.
\<close>

definition np_setitem2 ::
  "'a array2 \<Rightarrow> int \<times> int \<times> nat \<Rightarrow> int \<times> int \<times> nat \<Rightarrow> 'a array2 \<Rightarrow> py_error + 'a array2" where
  "np_setitem2 dst ys xs v =
     (let (ya, yb, ystep) = ys; (xa, xb, xstep) = xs;
          (y0, h) = slice_range ya yb ystep (nrows dst);
          (x0, w) = slice_range xa xb xstep (ncols dst)
      in if (nrows v = h \<or> nrows v = 1) \<and> (ncols v = w \<or> ncols v = 1)
         then Inr (dst\<lparr>at2 := (\<lambda>r c.
                if y0 \<le> r \<and> (r - y0) mod ystep = 0 \<and> (r - y0) div ystep < h
                   \<and> x0 \<le> c \<and> (c - x0) mod xstep = 0 \<and> (c - x0) div xstep < w
                then at2 v (if nrows v = h then (r - y0) div ystep else 0)
                           (if ncols v = w then (c - x0) div xstep else 0)
                else at2 dst r c)\<rparr>)
         else Inl ValueError)"

text \<open>The options of \<open>Config.args\<close> that the geometry and the pixel functions read.\<close>

record Args =
  re_horzalign :: Alignment
  re_vertalign :: Alignment
  src_srgbtolinear :: bool
  src_wbmultipliers :: "WhiteBalanceMultipliers option"
  src_grayscale :: bool

text \<open>
  \<open>validateBayeredNpyData\<close>: the returned flag (true for an error) and what is printed.
  \<open>data.max()\<close> of an array without elements raises \<open>ValueError\<close>.
\<close>

definition validateBayeredNpyData :: "Exif \<Rightarrow> u16 list \<Rightarrow> py_error + bool \<times> message list" where
  "validateBayeredNpyData exif data =
     (if data = [] then Inl ValueError
      else if unat (Max (set data)) \<ge> 2 ^ 14
        then Inr (True, [PrintE ''has pixels >= 2^14 - cannot encode''])
      else if blackLevel exif > 0 \<and> unat (Min (set data)) < blackLevel exif
        then Inr (False, [PrintW ''has pixels < blackLevel''])
      else Inr (False, []))"

text \<open>
  The placement of a pre-Bayer input of the given dimensions on the raw frame, as both
  branches of \<open>processSourceNumpy\<close> compute it: \<open>posInTgt\<close> and \<open>cropRect\<close>, with no
  padding and no cropping when \<open>calcSrcGeomAdjustments\<close> returns \<open>None\<close>.
\<close>

definition npyPlacement :: "Dimensions \<Rightarrow> Exif \<Rightarrow> Args \<Rightarrow> py_error + Coordinate \<times> Rect" where
  "npyPlacement inputDimensions exif args =
     (case calcSrcGeomAdjustments inputDimensions (rawDimensions exif) NONE False
             (re_horzalign args) (re_vertalign args) of
        Inl e \<Rightarrow> Inl e
      | Inr None \<Rightarrow>
          Inr (\<lparr>coord_x = 0, coord_y = 0\<rparr>,
               \<lparr>startx = 0, starty = 0, endx = columns inputDimensions, endy = rows inputDimensions\<rparr>)
      | Inr (Some adj) \<Rightarrow>
          Inr (posInTgt adj,
               (case cropRect adj of
                  Some r \<Rightarrow> r
                | None \<Rightarrow> \<lparr>startx = 0, starty = 0, endx = columns inputDimensions,
                            endy = rows inputDimensions\<rparr>)))"

text \<open>The branch of \<open>processSourceNumpy\<close> for a \<open>(rows, cols)\<close> array, after its
  validation.\<close>

definition placeBayer2D :: "Exif \<Rightarrow> Args \<Rightarrow> u16 array2 \<Rightarrow> py_error + u16 array2" where
  "placeBayer2D exif args input =
     (case npyPlacement \<lparr>columns = int (ncols input), rows = int (nrows input)\<rparr> exif args of
        Inl e \<Rightarrow> Inl e
      | Inr (pos, crop) \<Rightarrow>
          (case np_full (nat (rows (rawDimensions exif))) (nat (columns (rawDimensions exif)))
                  (blackLevel exif) of
             Inl e \<Rightarrow> Inl e
           | Inr bayeredImage \<Rightarrow>
               np_setitem2 bayeredImage
                 (coord_y pos, coord_y pos + endy crop, 1) (coord_x pos, coord_x pos + endx crop, 1)
                 (np_getitem2 input (starty crop, endy crop) (startx crop, endx crop))))"

text \<open>The branch for a \<open>(rows, cols, 4)\<close> array, one channel per Bayer site of a cell.\<close>

definition placeBayer4Ch :: "Exif \<Rightarrow> Args \<Rightarrow> u16 array3 \<Rightarrow> py_error + u16 array2" where
  "placeBayer4Ch exif args input =
     (case npyPlacement \<lparr>columns = int (ncols3 input) * 2, rows = int (nrows3 input) * 2\<rparr> exif args of
        Inl e \<Rightarrow> Inl e
      | Inr (pos, crop) \<Rightarrow>
          (case np_full (nat (rows (rawDimensions exif))) (nat (columns (rawDimensions exif)))
                  (blackLevel exif) of
             Inl e \<Rightarrow> Inl e
           | Inr b0 \<Rightarrow>
               (let chan = (\<lambda>k. np_getitem3 input (starty crop div 2, endy crop div 2)
                                   (startx crop div 2, endx crop div 2) k);
                    yend = coord_y pos + endy crop; xend = coord_x pos + endx crop
                in (case np_setitem2 b0 (0 + coord_y pos, yend, 2) (0 + coord_x pos, xend, 2) (chan 0) of
                      Inl e \<Rightarrow> Inl e
                    | Inr b1 \<Rightarrow>
                   (case np_setitem2 b1 (0 + coord_y pos, yend, 2) (1 + coord_x pos, xend, 2) (chan 1) of
                      Inl e \<Rightarrow> Inl e
                    | Inr b2 \<Rightarrow>
                   (case np_setitem2 b2 (1 + coord_y pos, yend, 2) (0 + coord_x pos, xend, 2) (chan 2) of
                      Inl e \<Rightarrow> Inl e
                    | Inr b3 \<Rightarrow>
                      np_setitem2 b3 (1 + coord_y pos, yend, 2) (1 + coord_x pos, xend, 2) (chan 3)))))))"

text \<open>
  \<open>processSourceNumpy\<close>. \<open>loaded\<close> is the result of \<open>np.load\<close>, \<open>None\<close> when it
  raises; \<open>processSourceImageData\<close> is the pipeline for an RGB array, which runs on
  OpenCV and is a parameter here. The result is what is printed, the processed source
  image and the Bayer plane; both are \<open>None\<close> after an error that the function reports.
  \<open>Inl\<close> is an exception that nothing catches.
\<close>

definition processSourceNumpy ::
  "Exif \<Rightarrow> Args \<Rightarrow> (u16 array3 \<Rightarrow> py_error + message list \<times> 'img option \<times> u16 array2 option)
     \<Rightarrow> ndarray option \<Rightarrow> py_error + message list \<times> 'img option \<times> u16 array2 option" where
  "processSourceNumpy exif args processSourceImageData loaded =
     (case loaded of
        None \<Rightarrow> Inr ([PrintE ''Error loading numpy file''], None, None)
      | Some OtherDtype \<Rightarrow> Inr ([PrintE ''Numpy array must be uint16''], None, None)
      | Some (U16_2D input) \<Rightarrow>
          (case validateBayeredNpyData exif (elems2 input) of
             Inl e \<Rightarrow> Inl e
           | Inr (True, msgs) \<Rightarrow> Inr (msgs, None, None)
           | Inr (False, msgs) \<Rightarrow>
               (case placeBayer2D exif args input of
                  Inl e \<Rightarrow> Inl e
                | Inr bayeredImage \<Rightarrow> Inr (msgs, None, Some bayeredImage)))
      | Some (U16_3D input) \<Rightarrow>
          (if nchan input = 3 then processSourceImageData input
           else if nchan input = 4 then
             (case validateBayeredNpyData exif (elems3 input) of
                Inl e \<Rightarrow> Inl e
              | Inr (True, msgs) \<Rightarrow> Inr (msgs, None, None)
              | Inr (False, msgs) \<Rightarrow>
                  (case placeBayer4Ch exif args input of
                     Inl e \<Rightarrow> Inl e
                   | Inr bayeredImage \<Rightarrow> Inr (msgs, None, Some bayeredImage)))
           else Inr ([PrintE ''1st dimension must be either x3 deep or x4 deep''], None, None))
      | Some U16_ND \<Rightarrow> Inr ([PrintE ''Can't identify image data type''], None, None))"

text \<open>
  \<open>run\<close> for a numpy input, from \<open>processSourceFile\<close> on: the template's EXIF and the
  options are given. \<open>encode\<close> is \<open>src_EncodeToNikonLossless\<close>, which calls the compiled
  encoder: it prints an error and returns \<open>None\<close> when the library cannot be loaded or the
  encoder fails. The division by \<open>bytesUncompressed\<close> is in the argument of a \<open>printI\<close>,
  which is evaluated whatever the verbosity. The other parameters are those of
  \<open>writeOutputNEF\<close>. The result is the calls of \<open>printE\<close> and \<open>printW\<close>, the returned
  flag and the bytes of the output file, if it was written. \<open>Inl\<close> is an exception that
  nothing catches; what was printed before it is not recorded.
\<close>

definition run ::
  "Exif \<Rightarrow> Args \<Rightarrow> (u16 array3 \<Rightarrow> py_error + message list \<times> 'img option \<times> u16 array2 option)
     \<Rightarrow> (u16 array2 \<Rightarrow> py_error + message list \<times> byte list option)
     \<Rightarrow> ('img option \<Rightarrow> py_error + message list \<times> 'p option) \<Rightarrow> 'p JpgTools
     \<Rightarrow> byte list option \<Rightarrow> py_error + message list \<times> string option
     \<Rightarrow> (string \<Rightarrow> byte list \<Rightarrow> bool) \<Rightarrow> (string \<Rightarrow> bool) option \<Rightarrow> ndarray option
     \<Rightarrow> py_error + message list \<times> bool \<times> byte list option" where
  "run exif args processSourceImageData encode preview tools templateFile outputFilename writeFile
       openinviewer loaded =
     (case processSourceNumpy exif args processSourceImageData loaded of
        Inl e \<Rightarrow> Inl e
      | Inr (msgs, img, None) \<Rightarrow> Inr (msgs, True, None)
      | Inr (msgs, img, Some bayeredImage) \<Rightarrow>
          (case encode bayeredImage of
             Inl e \<Rightarrow> Inl e
           | Inr (encoderMsgs, None) \<Rightarrow> Inr (msgs @ encoderMsgs, True, None)
           | Inr (encoderMsgs, Some encodedImageData) \<Rightarrow>
               (let bytesUncompressed =
                      py_int (int_truediv (columns (rawDimensions exif) * rows (rawDimensions exif) * 14) 8)
                in if bytesUncompressed = 0 then Inl ZeroDivisionError
                   else
                     (case writeOutputNEF exif tools templateFile (preview img) outputFilename writeFile
                             openinviewer encodedImageData of
                        Inl e \<Rightarrow> Inl e
                      | Inr (writeMsgs, fWriteFailed, written) \<Rightarrow>
                          Inr (msgs @ encoderMsgs @ writeMsgs
                                 @ (if fWriteFailed then [PrintE ''Error generating/writing output NEF'']
                                    else []),
                               fWriteFailed, written)))))"

text \<open>Arrays written as lists of rows, for concrete inputs and results.\<close>

definition array2_of :: "'a list list \<Rightarrow> 'a array2" where
  "array2_of xss =
     \<lparr>nrows = length xss, ncols = (case xss of [] \<Rightarrow> 0 | xs # rest \<Rightarrow> length xs),
      at2 = (\<lambda>r c. xss ! r ! c)\<rparr>"

definition rows_of :: "'a array2 \<Rightarrow> 'a list list" where
  "rows_of a = map (\<lambda>r. map (at2 a r) [0..<ncols a]) [0..<nrows a]"

section \<open>The Bayer phase of the pixel pipeline\<close>

text \<open>
  The second list of operations of \<open>processSourceImageData\<close>, \<open>bayerOps\<close>. It is
  entered with 16-bit data: a two-dimensional (grayscale) image or a three-dimensional one
  with the channels in OpenCV's order blue, green, red. The float arrays are \<open>float32\<close>: an
  operation of an array with a Python scalar converts the scalar to \<open>float32\<close> and rounds
  the exact result to \<open>float32\<close>.
\<close>

datatype 'a image = Gray "'a array2" | Color "'a array3"

definition map_array2 :: "('a \<Rightarrow> 'b) \<Rightarrow> 'a array2 \<Rightarrow> 'b array2" where
  "map_array2 f a = \<lparr>nrows = nrows a, ncols = ncols a, at2 = (\<lambda>r c. f (at2 a r c))\<rparr>"








text \<open>\<open>astype(np.uint16)\<close> of a float: truncation towards zero, defined for the values
  that truncate into the range of \<open>uint16\<close>.\<close>

definition castable_uint16 :: "rat \<Rightarrow> bool" where
  "castable_uint16 v \<longleftrightarrow> - 1 < v \<and> v < 65536"

definition astype_uint16 :: "rat \<Rightarrow> u16" where
  "astype_uint16 v = word_of_int (py_int v)"

text \<open>\<open>src_ScaleNormalizedFloatTo14Bit\<close>: the multiplication in place by the Python
  integer \<open>16383 - blackLevel\<close>, then \<open>astype(np.uint16)\<close>.\<close>

definition src_ScaleNormalizedFloatTo14Bit :: "Exif \<Rightarrow> rat array2 \<Rightarrow> py_error + u16 array2" where
  "src_ScaleNormalizedFloatTo14Bit exif img =
     (let scaled = map_array2 (\<lambda>v. fl32 (v * fl32 (of_int (16383 - int (blackLevel exif))))) img in
      if list_all castable_uint16 (elems2 scaled) then Inr (map_array2 astype_uint16 scaled)
      else Inl Unspecified)"



section \<open>Auxiliary notion: relative error\<close>


section \<open>Rounding\<close>

lemma bitlen_powi_bounds:
  assumes "0 < a"
  shows "2 powi (bitlen a - 1) \<le> (of_int a :: rat)" and "(of_int a :: rat) < 2 powi bitlen a"
proof -
  have pos: "1 \<le> bitlen a"
    using assms bitlen_eq_zero_iff [of a] bitlen_nonneg [of a] by linarith
  from bitlen_bounds [OF assms]
  have lo: "2 ^ nat (bitlen a - 1) \<le> a" and hi: "a < 2 ^ nat (bitlen a)" by auto
  have "(of_int (2 ^ nat (bitlen a - 1)) :: rat) \<le> of_int a"
    using lo by (simp only: of_int_le_iff)
  then show "2 powi (bitlen a - 1) \<le> (of_int a :: rat)"
    using pos by (simp add: power_int_def)
  have "(of_int a :: rat) < of_int (2 ^ nat (bitlen a))"
    using hi by (simp only: of_int_less_iff)
  then show "(of_int a :: rat) < 2 powi bitlen a"
    using pos by (simp add: power_int_def)
qed

lemma ilog2_bounds:
  assumes "0 < v"
  shows "2 powi ilog2 v \<le> v" and "v < 2 powi (ilog2 v + 1)"
proof -
  obtain a b where q: "quotient_of v = (a, b)" by (cases "quotient_of v")
  have b: "0 < b" using quotient_of_denom_pos [OF q] .
  have v: "v = of_int a / of_int b" using quotient_of_div [OF q] .
  have a: "0 < a" using assms b v by (simp add: zero_less_divide_iff)
  define d where "d = bitlen a - bitlen b"
  have il: "ilog2 v = (if 2 powi d \<le> v then d else d - 1)"
    by (simp add: ilog2_def q d_def)
  have bq: "(0::rat) < of_int b" using b by simp
  have lo: "2 powi (d - 1) \<le> v"
  proof -
    have "2 powi (d - 1) * (of_int b :: rat) \<le> 2 powi (d - 1) * 2 powi bitlen b"
      using bitlen_powi_bounds(2) [OF b] by (intro mult_left_mono) auto
    also have "\<dots> = 2 powi (bitlen a - 1)"
      by (simp add: d_def flip: power_int_add)
    also have "\<dots> \<le> of_int a" using bitlen_powi_bounds(1) [OF a] .
    finally show ?thesis using bq by (simp add: v pos_le_divide_eq)
  qed
  have hi: "v < 2 powi (d + 1)"
  proof -
    have "(of_int a :: rat) < 2 powi bitlen a" using bitlen_powi_bounds(2) [OF a] .
    also have "\<dots> = 2 powi (d + 1) * 2 powi (bitlen b - 1)"
      by (simp add: d_def flip: power_int_add)
    also have "\<dots> \<le> 2 powi (d + 1) * of_int b"
      using bitlen_powi_bounds(1) [OF b] by (intro mult_left_mono) auto
    finally show ?thesis using bq by (simp add: v pos_divide_less_eq)
  qed
  show "2 powi ilog2 v \<le> v" using lo by (simp add: il)
  show "v < 2 powi (ilog2 v + 1)" using hi by (auto simp add: il not_le)
qed

lemma pow2_less_imp:
  assumes "(2::rat) powi i < 2 powi j"
  shows "i < j"
proof (rule ccontr)
  assume "\<not> i < j"
  then have "(2::rat) powi j \<le> 2 powi i"
    by (intro power_int_increasing) auto
  with assms show False by simp
qed

lemma ilog2_unique:
  assumes "2 powi k \<le> v" "v < 2 powi (k + 1)"
  shows "ilog2 v = k"
proof -
  have "(0::rat) < 2 powi k" by simp
  then have v: "0 < v" using assms(1) by linarith
  have "2 powi ilog2 v < (2::rat) powi (k + 1)"
    using ilog2_bounds(1) [OF v] assms(2) by simp
  then have a: "ilog2 v < k + 1" by (rule pow2_less_imp)
  have "2 powi k < (2::rat) powi (ilog2 v + 1)"
    using ilog2_bounds(2) [OF v] assms(1) by simp
  then have b: "k < ilog2 v + 1" by (rule pow2_less_imp)
  from a b show ?thesis by simp
qed

lemma py_round_of_int: "py_round (of_int n) = n"
  by (simp add: py_round_def)

lemma py_round_ge:
  assumes "of_int n - 1 / 2 < v"
  shows "n \<le> py_round v"
proof -
  have "of_int n < v + 1 / 2" using assms by simp
  then have "n \<le> \<lfloor>v + 1 / 2\<rfloor>" by (simp add: le_floor_iff less_imp_le) 
  have f: "of_int \<lfloor>v\<rfloor> \<le> v" "v < of_int \<lfloor>v\<rfloor> + 1" by linarith+
  show ?thesis
  proof (cases "n \<le> \<lfloor>v\<rfloor>")
    case True
    then show ?thesis by (auto simp add: py_round_def Let_def)
  next
    case False
    then have "\<lfloor>v\<rfloor> + 1 \<le> n" by simp
    then have "of_int \<lfloor>v\<rfloor> + 1 \<le> (of_int n :: rat)"
      by (metis of_int_1 of_int_add of_int_le_iff)
    with assms f have "1 / 2 < v - of_int \<lfloor>v\<rfloor>" "n = \<lfloor>v\<rfloor> + 1"
      using \<open>\<lfloor>v\<rfloor> + 1 \<le> n\<close> by linarith+
    then show ?thesis by (simp add: py_round_def Let_def)
  qed
qed

lemma py_round_le:
  assumes "v < of_int n + 1 / 2"
  shows "py_round v \<le> n"
proof -
  have f: "of_int \<lfloor>v\<rfloor> \<le> v" "v < of_int \<lfloor>v\<rfloor> + 1" by linarith+
  show ?thesis
  proof (cases "\<lfloor>v\<rfloor> + 1 \<le> n")
    case True
    then show ?thesis by (auto simp add: py_round_def Let_def)
  next
    case False
    then have "n \<le> \<lfloor>v\<rfloor>" by simp
    then have "(of_int n :: rat) \<le> of_int \<lfloor>v\<rfloor>" by (simp only: of_int_le_iff)
    with assms f have "v - of_int \<lfloor>v\<rfloor> < 1 / 2" "n = \<lfloor>v\<rfloor>"
      using \<open>n \<le> \<lfloor>v\<rfloor>\<close> by linarith+
    then show ?thesis by (simp add: py_round_def Let_def)
  qed
qed

lemma py_round_err: "\<bar>of_int (py_round v) - v\<bar> \<le> 1 / 2"
proof -
  have f: "of_int \<lfloor>v\<rfloor> \<le> v" "v < of_int \<lfloor>v\<rfloor> + 1" by linarith+
  then show ?thesis by (auto simp add: py_round_def Let_def)
qed

lemma py_round_mono:
  assumes "v \<le> w"
  shows "py_round v \<le> py_round w"
proof (cases "\<lfloor>v\<rfloor> = \<lfloor>w\<rfloor>")
  case True
  then show ?thesis using assms by (auto simp add: py_round_def Let_def)
next
  case False
  then have "\<lfloor>v\<rfloor> + 1 \<le> \<lfloor>w\<rfloor>" using floor_mono [OF assms] by linarith
  moreover have "py_round v \<le> \<lfloor>v\<rfloor> + 1" by (auto simp add: py_round_def Let_def)
  moreover have "\<lfloor>w\<rfloor> \<le> py_round w" by (auto simp add: py_round_def Let_def)
  ultimately show ?thesis by linarith
qed

lemma pow2_powi_nat: "(2::rat) powi int n = 2 ^ n"
  by (simp add: power_int_def)

lemma fl_round_exact:
  assumes v: "v = of_int m * 2 powi e" and m: "\<bar>m\<bar> < 2 ^ p" and e: "emin \<le> e"
  shows "fl_round p emin v = v"
proof (cases "v = 0")
  case True
  then show ?thesis by (simp add: fl_round_def)
next
  case False
  define e' where "e' = max (ilog2 \<bar>v\<bar> - (int p - 1)) emin"
  have av: "\<bar>v\<bar> = of_int \<bar>m\<bar> * 2 powi e"
    by (simp add: v abs_mult)
  have pos: "0 < \<bar>v\<bar>" using False by simp
  have "(of_int \<bar>m\<bar> :: rat) < of_int (2 ^ p)" using m by (simp only: of_int_less_iff)
  then have "\<bar>v\<bar> < 2 ^ p * 2 powi e"
    unfolding av by (intro mult_strict_right_mono) auto
  also have "\<dots> = 2 powi (int p + e)"
    by (simp add: power_int_add pow2_powi_nat)
  finally have "2 powi ilog2 \<bar>v\<bar> < (2::rat) powi (int p + e)"
    using ilog2_bounds(1) [OF pos] by simp
  then have "ilog2 \<bar>v\<bar> < int p + e" by (rule pow2_less_imp)
  then have le: "e' \<le> e" using e by (simp add: e'_def)
  define k where "k = nat (e - e')"
  have ek: "e = e' + int k" using le by (simp add: k_def)
  have "v / 2 powi e' = of_int m * 2 powi (int k)"
    by (simp add: v ek power_int_add)
  also have "\<dots> = of_int (m * 2 ^ k)" by (simp add: pow2_powi_nat)
  finally have q: "v / 2 powi e' = of_int (m * 2 ^ k)" .
  have "fl_round p emin v = of_int (py_round (v / 2 powi e')) * 2 powi e'"
    using False by (simp add: fl_round_def e'_def Let_def)
  also have "\<dots> = of_int (m * 2 ^ k) * 2 powi e'"
    by (simp only: q py_round_of_int)
  also have "\<dots> = v" by (simp add: v ek power_int_add pow2_powi_nat)
  finally show ?thesis .
qed

lemma fl_round_of_int:
  assumes "\<bar>n\<bar> < 2 ^ p" "emin \<le> 0"
  shows "fl_round p emin (of_int n) = of_int n"
  using fl_round_exact [of "of_int n" n 0 p emin] assms by simp

lemma fl_round_nonneg:
  assumes "0 \<le> v"
  shows "0 \<le> fl_round p emin v"
proof (cases "v = 0")
  case True
  then show ?thesis by (simp add: fl_round_def)
next
  case False
  define e where "e = max (ilog2 \<bar>v\<bar> - (int p - 1)) emin"
  have "0 \<le> v / 2 powi e" using assms by simp
  then have "of_int 0 - 1 / 2 < v / 2 powi e" by simp
  then have "0 \<le> py_round (v / 2 powi e)" by (rule py_round_ge)
  then show ?thesis using False by (simp add: fl_round_def e_def [symmetric] Let_def)
qed

lemma ilog2_mono:
  assumes "0 < v" "v \<le> w"
  shows "ilog2 v \<le> ilog2 w"
proof -
  have w: "0 < w" using assms by simp
  have "2 powi ilog2 v < (2::rat) powi (ilog2 w + 1)"
    using ilog2_bounds(1) [OF assms(1)] ilog2_bounds(2) [OF w] assms(2) by linarith
  then have "ilog2 v < ilog2 w + 1" by (rule pow2_less_imp)
  then show ?thesis by simp
qed

lemma fl_round_mono:
  assumes v: "0 \<le> v" and vw: "v \<le> w" and p: "0 < p"
  shows "fl_round p emin v \<le> fl_round p emin w"
proof (cases "v = 0")
  case True
  then show ?thesis using fl_round_nonneg [of w p emin] v vw by (simp add: fl_round_def)
next
  case False
  then have vpos: "0 < v" using v by simp
  then have wpos: "0 < w" using vw by simp
  define ev where "ev = max (ilog2 v - (int p - 1)) emin"
  define ew where "ew = max (ilog2 w - (int p - 1)) emin"
  have fv: "fl_round p emin v = of_int (py_round (v / 2 powi ev)) * 2 powi ev"
    using vpos by (simp add: fl_round_def ev_def Let_def)
  have fw: "fl_round p emin w = of_int (py_round (w / 2 powi ew)) * 2 powi ew"
    using wpos by (simp add: fl_round_def ew_def Let_def)
  have le: "ev \<le> ew" using ilog2_mono [OF vpos vw] by (simp add: ev_def ew_def)
  show ?thesis
  proof (cases "ev = ew")
    case True
    have "v / 2 powi ew \<le> w / 2 powi ew" using vw by (simp add: divide_right_mono)
    then have "py_round (v / 2 powi ew) \<le> py_round (w / 2 powi ew)" by (rule py_round_mono)
    then have "(of_int (py_round (v / 2 powi ew)) :: rat) \<le> of_int (py_round (w / 2 powi ew))"
      by (simp only: of_int_le_iff)
    then show ?thesis unfolding fv fw True by (intro mult_right_mono) auto
  next
    case False
    then have lt: "ev + 1 \<le> ew" using le by simp
    then have ew: "ew = ilog2 w - (int p - 1)" by (auto simp add: ew_def ev_def max_def split: if_splits)
    have "ilog2 v + 1 \<le> ev + int p" by (simp add: ev_def)
    then have "(2::rat) powi (ilog2 v + 1) \<le> 2 powi (ev + int p)"
      by (intro power_int_increasing) auto
    then have "v < 2 powi (ev + int p)" using ilog2_bounds(2) [OF vpos] by linarith
    then have "v / 2 powi ev < 2 ^ p"
      by (simp add: power_int_add pow2_powi_nat pos_divide_less_eq mult.commute)
    then have "v / 2 powi ev < of_int (2 ^ p) + 1 / 2" by simp
    then have "py_round (v / 2 powi ev) \<le> 2 ^ p" by (rule py_round_le)
    then have "(of_int (py_round (v / 2 powi ev)) :: rat) \<le> of_int (2 ^ p)"
      by (simp only: of_int_le_iff)
    then have "fl_round p emin v \<le> of_int (2 ^ p) * 2 powi ev"
      unfolding fv by (intro mult_right_mono) auto
    also have "\<dots> = 2 powi (ev + int p)" by (simp add: power_int_add pow2_powi_nat)
    also have "\<dots> \<le> 2 powi (ew + int p - 1)" using lt by (intro power_int_increasing) auto
    finally have up: "fl_round p emin v \<le> 2 powi (ew + int p - 1)" .
    obtain p' where p': "p = Suc p'" using p by (cases p) auto
    have "2 powi (ew + int p') \<le> w" using ilog2_bounds(1) [OF wpos] by (simp add: ew p')
    then have "2 ^ p' \<le> w / 2 powi ew"
      by (simp add: power_int_add pow2_powi_nat pos_le_divide_eq mult.commute)
    then have "of_int (2 ^ p') - 1 / 2 < w / 2 powi ew" by simp
    then have "2 ^ p' \<le> py_round (w / 2 powi ew)" by (rule py_round_ge)
    then have "(of_int (2 ^ p') :: rat) \<le> of_int (py_round (w / 2 powi ew))"
      by (simp only: of_int_le_iff)
    then have "of_int (2 ^ p') * 2 powi ew \<le> fl_round p emin w"
      unfolding fw by (intro mult_right_mono) auto
    moreover have "of_int (2 ^ p') * 2 powi ew = (2::rat) powi (ew + int p - 1)"
      by (simp add: p' power_int_add pow2_powi_nat)
    ultimately show ?thesis using up by linarith
  qed
qed


section \<open>Slice assignment and the preview loop\<close>

lemma slice_assign_fit:
  "a + length dat \<le> length buf \<Longrightarrow>
     slice_assign a (a + length dat) dat buf = take a buf @ dat @ drop (a + length dat) buf"
  by (simp add: slice_assign_def Let_def min_def max_def)

lemma length_slice_assign:
  "a + length dat \<le> length buf \<Longrightarrow> length (slice_assign a (a + length dat) dat buf) = length buf"
  by (simp add: slice_assign_fit)

lemma length_slice_assign_ge:
  "length buf \<le> length (slice_assign a (a + length dat) dat buf)"
  by (auto simp add: slice_assign_def Let_def min_def max_def)

lemma nth_slice_assign_inside:
  assumes "a \<le> length buf" "i < length dat"
  shows "slice_assign a b dat buf ! (a + i) = dat ! i"
  using assms by (simp add: slice_assign_def Let_def min_def nth_append)

lemma nth_slice_assign_outside:
  assumes "i < length buf" "i < a \<or> a + length dat \<le> i"
  shows "slice_assign a (a + length dat) dat buf ! i = buf ! i"
proof (cases "i < a")
  case True
  then show ?thesis using assms(1) by (simp add: slice_assign_def Let_def min_def nth_append)
next
  case False
  then have ge: "a + length dat \<le> i" using assms(2) by simp
  then have fit: "a + length dat \<le> length buf" using assms(1) by simp
  have la: "length (take a buf) = a" using fit by simp
  have "(take a buf @ dat @ drop (a + length dat) buf) ! i
          = (dat @ drop (a + length dat) buf) ! (i - a)"
    using ge la by (simp add: nth_append)
  also have "\<dots> = drop (a + length dat) buf ! (i - a - length dat)"
  proof -
    have "\<not> i - a < length dat" using ge by linarith
    then show ?thesis by (simp only: nth_append if_False)
  qed
  also have "\<dots> = buf ! i" using ge fit assms(1) by simp
  finally show ?thesis by (simp add: slice_assign_fit [OF fit])
qed

lemma unat_byte_of_nat: "unat (of_nat n :: byte) = n mod 256"
  by (simp add: unat_of_nat)

lemma read_le32_pack:
  assumes "n < 2 ^ 32"
  shows "unat (of_nat n :: byte) + 256 * unat (of_nat (n div 256) :: byte)
           + 65536 * unat (of_nat (n div 65536) :: byte)
           + 16777216 * unat (of_nat (n div 16777216) :: byte) = n"
proof -
  define a b c where "a = n div 256" and "b = a div 256" and "c = b div 256"
  have c: "c < 256" using assms by (simp add: a_def b_def c_def div_mult2_eq)
  have e1: "n = n mod 256 + 256 * a" by (simp add: a_def)
  have e2: "a = a mod 256 + 256 * b" by (simp add: b_def)
  have e3: "b = b mod 256 + 256 * c" by (simp add: c_def)
  have d2: "n div 65536 = b" by (simp add: a_def b_def div_mult2_eq)
  have d3: "n div 16777216 = c" by (simp add: a_def b_def c_def div_mult2_eq)
  have "n mod 256 + 256 * (a mod 256) + 65536 * (b mod 256) + 16777216 * (c mod 256) = n"
    using e1 e2 e3 c by simp
  then show ?thesis by (simp add: unat_byte_of_nat d2 d3 a_def [symmetric])
qed

lemma nth_slice_assign_at:
  assumes "a + length dat \<le> length buf" "i < length dat"
  shows "slice_assign a (a + length dat) dat buf ! (a + i) = dat ! i"
  using assms by (intro nth_slice_assign_inside) auto

lemma read_le32_slice_assign:
  assumes "struct_pack_le32 n = Inr packed" "off + 4 \<le> length buf"
  shows "read_le32 (slice_assign off (off + 4) packed buf) off = n"
proof -
  have n: "n < 2 ^ 32" and p: "packed = [of_nat n, of_nat (n div 256), of_nat (n div 65536), of_nat (n div 16777216)]"
    using assms(1) by (auto simp add: struct_pack_le32_def split: if_splits)
  have len: "length packed = 4" by (simp add: p)
  have fit: "off + length packed \<le> length buf" using assms(2) len by simp
  have at: "\<And>i. i < 4 \<Longrightarrow> slice_assign off (off + 4) packed buf ! (off + i) = packed ! i"
    using nth_slice_assign_at [OF fit] len by simp
  have "slice_assign off (off + 4) packed buf ! off = packed ! 0" using at [of 0] by simp
  moreover have "slice_assign off (off + 4) packed buf ! (off + 1) = packed ! 1" using at [of 1] by simp
  moreover have "slice_assign off (off + 4) packed buf ! (off + 2) = packed ! 2" using at [of 2] by simp
  moreover have "slice_assign off (off + 4) packed buf ! (off + 3) = packed ! 3" using at [of 3] by simp
  ultimately show ?thesis
    using read_le32_pack [OF n] by (simp add: read_le32_def p)
qed

lemma struct_pack_le32_length:
  "struct_pack_le32 n = Inr packed \<Longrightarrow> length packed = 4"
  by (auto simp add: struct_pack_le32_def split: if_splits)

lemma newNefData_before_patch:
  assumes "so \<le> length templateFile"
  shows "slice_assign so (length (slice_assign 0 so (take so templateFile) (replicate (so + n) (0::byte))))
           enc (slice_assign 0 so (take so templateFile) (replicate (so + n) 0))
         = take so templateFile @ enc"
proof -
  have one: "slice_assign 0 so (take so templateFile) (replicate (so + n) (0::byte))
               = take so templateFile @ replicate n 0"
    using assms by (simp add: slice_assign_def Let_def min_def max_def)
  show ?thesis
    unfolding one using assms by (simp add: slice_assign_def Let_def min_def max_def)
qed

lemma generateEmbeddedJpg_loop_fits:
  "generateEmbeddedJpg_loop save maxSizeBytes quality = Some jpg \<Longrightarrow> length jpg \<le> maxSizeBytes"
proof (induction save maxSizeBytes quality rule: generateEmbeddedJpg_loop.induct)
  case (1 save maxSizeBytes quality)
  have unfold: "generateEmbeddedJpg_loop save maxSizeBytes quality =
      (if length (save quality) \<le> maxSizeBytes then Some (save quality)
       else if quality \<le> 20 then None
       else generateEmbeddedJpg_loop save maxSizeBytes (quality - 10))"
    by (subst generateEmbeddedJpg_loop.simps) (simp add: Let_def)
  show ?case
  proof (cases "length (save quality) \<le> maxSizeBytes")
    case True
    then show ?thesis using "1.prems" by (simp add: unfold)
  next
    case False
    then have q: "\<not> quality \<le> 20" using "1.prems" by (simp add: unfold split: if_splits)
    then have "generateEmbeddedJpg_loop save maxSizeBytes (quality - 10) = Some jpg"
      using False "1.prems" by (simp add: unfold)
    then show ?thesis using "1.IH" [OF refl False q] by simp
  qed
qed

lemma newEmbeddedJpg_fits:
  assumes "newEmbeddedJpg tools image8 dimensions e = Some jpg"
  shows "length jpg \<le> jpgLength e"
  using assms generateEmbeddedJpg_loop_fits
  by (auto simp add: newEmbeddedJpg_def generateEmbeddedJpg_def generatePlaceholderEmbeddedJpg_def
        Let_def split: option.splits if_splits)

lemma struct_pack_le32_ok: "n < 2 ^ 32 \<Longrightarrow> \<exists>packed. struct_pack_le32 n = Inr packed"
  by (simp add: struct_pack_le32_def)

lemma overwriteEmbeddedJpg_eq:
  "overwriteEmbeddedJpg e jpg buf =
     (case struct_pack_le32 (length jpg) of
        Inl err \<Rightarrow> Inl err
      | Inr packed \<Rightarrow>
          Inr (slice_assign (offsetToLengthField e) (offsetToLengthField e + 4) packed
                 (jpg_written e jpg buf)))"
  by (cases "struct_pack_le32 (length jpg)") (simp_all add: overwriteEmbeddedJpg_def jpg_written_def Let_def)

lemma jpg_written_length_ge: "length buf \<le> length (jpg_written e jpg buf)"
proof -
  have a: "length buf \<le> length (slice_assign (jpgStart e) (jpgStart e + length jpg) jpg buf)"
    by (rule length_slice_assign_ge)
  show ?thesis
  proof (cases "length jpg < jpgLength e")
    case True
    have "length (slice_assign (jpgStart e) (jpgStart e + length jpg) jpg buf)
            \<le> length (slice_assign (jpgStart e + length jpg)
                  (jpgStart e + length jpg + length (replicate (jpgLength e - length jpg) (0::byte)))
                  (replicate (jpgLength e - length jpg) 0)
                  (slice_assign (jpgStart e) (jpgStart e + length jpg) jpg buf))"
      by (rule length_slice_assign_ge)
    then show ?thesis using a True by (simp add: jpg_written_def Let_def)
  next
    case False
    then show ?thesis using a by (simp add: jpg_written_def Let_def)
  qed
qed

lemma jpg_written_frame:
  assumes i: "i < length buf" and out: "i < jpgStart e \<or> jpgStart e + jpgLength e \<le> i"
    and fits: "length jpg \<le> jpgLength e"
  shows "jpg_written e jpg buf ! i = buf ! i"
proof -
  define d1 where "d1 = slice_assign (jpgStart e) (jpgStart e + length jpg) jpg buf"
  have one: "d1 ! i = buf ! i"
    unfolding d1_def using i out fits by (intro nth_slice_assign_outside) auto
  have l1: "i < length d1" using i length_slice_assign_ge [of buf "jpgStart e" jpg]
    by (simp add: d1_def)
  show ?thesis
  proof (cases "length jpg < jpgLength e")
    case True
    define z where "z = replicate (jpgLength e - length jpg) (0::byte)"
    have lz: "jpgStart e + length jpg + length z = jpgStart e + jpgLength e"
      using True by (simp add: z_def)
    have "slice_assign (jpgStart e + length jpg) (jpgStart e + length jpg + length z) z d1 ! i = d1 ! i"
      using l1 out lz by (intro nth_slice_assign_outside) auto
    then show ?thesis using True one by (simp add: jpg_written_def Let_def d1_def z_def lz [unfolded z_def])
  next
    case False
    then show ?thesis using one by (simp add: jpg_written_def Let_def d1_def)
  qed
qed

lemma jpg_written_in_range:
  assumes region: "jpgStart e + jpgLength e \<le> length buf" and fits: "length jpg \<le> jpgLength e"
  shows "length (jpg_written e jpg buf) = length buf"
    and "\<And>i. i < length jpg \<Longrightarrow> jpg_written e jpg buf ! (jpgStart e + i) = jpg ! i"
    and "\<And>i. length jpg \<le> i \<Longrightarrow> i < jpgLength e \<Longrightarrow> jpg_written e jpg buf ! (jpgStart e + i) = 0"
proof -
  define d1 where "d1 = slice_assign (jpgStart e) (jpgStart e + length jpg) jpg buf"
  have fit1: "jpgStart e + length jpg \<le> length buf" using region fits by simp
  have l1: "length d1 = length buf" unfolding d1_def by (rule length_slice_assign [OF fit1])
  have in1: "d1 ! (jpgStart e + i) = jpg ! i" if "i < length jpg" for i
    unfolding d1_def using fit1 that by (rule nth_slice_assign_at)
  define z where "z = replicate (jpgLength e - length jpg) (0::byte)"
  define d2 where "d2 = slice_assign (jpgStart e + length jpg) (jpgStart e + length jpg + length z) z d1"
  have lz: "jpgStart e + length jpg + length z = jpgStart e + jpgLength e"
    using fits by (simp add: z_def)
  have fit2: "jpgStart e + length jpg + length z \<le> length d1" using region l1 lz by simp
  have l2: "length d2 = length buf"
    unfolding d2_def using length_slice_assign [OF fit2] l1 by simp
  have w: "jpg_written e jpg buf = (if length jpg < jpgLength e then d2 else d1)"
    by (simp add: jpg_written_def Let_def d1_def d2_def lz z_def lz [unfolded z_def])
  show "length (jpg_written e jpg buf) = length buf" using l1 l2 by (simp add: w)
  show "jpg_written e jpg buf ! (jpgStart e + i) = jpg ! i" if "i < length jpg" for i
  proof -
    have "d2 ! (jpgStart e + i) = d1 ! (jpgStart e + i)"
      unfolding d2_def using that l1 fit1 by (intro nth_slice_assign_outside) auto
    then show ?thesis using in1 [OF that] by (simp add: w)
  qed
  show "jpg_written e jpg buf ! (jpgStart e + i) = 0" if "length jpg \<le> i" "i < jpgLength e" for i
  proof -
    have lt: "length jpg < jpgLength e" using that by simp
    have iz: "i - length jpg < length z" using that by (simp add: z_def)
    have "d2 ! (jpgStart e + length jpg + (i - length jpg)) = z ! (i - length jpg)"
      unfolding d2_def using fit2 iz by (rule nth_slice_assign_at)
    moreover have "jpgStart e + length jpg + (i - length jpg) = jpgStart e + i" using that by simp
    moreover have "z ! (i - length jpg) = 0" using iz by (simp add: z_def)
    ultimately show ?thesis using lt by (simp add: w)
  qed
qed

lemma overwriteEmbeddedJpg_frame:
  assumes res: "overwriteEmbeddedJpg e jpg buf = Inr buf'" and fits: "length jpg \<le> jpgLength e"
  shows "length buf \<le> length buf'"
    and "\<And>i. i < length buf \<Longrightarrow> i < jpgStart e \<or> jpgStart e + jpgLength e \<le> i \<Longrightarrow>
           i < offsetToLengthField e \<or> offsetToLengthField e + 4 \<le> i \<Longrightarrow> buf' ! i = buf ! i"
    and "jpgStart e + jpgLength e \<le> length buf \<Longrightarrow> offsetToLengthField e + 4 \<le> length buf \<Longrightarrow>
           length buf' = length buf"
proof -
  define off where "off = offsetToLengthField e"
  define w where "w = jpg_written e jpg buf"
  obtain packed where packed: "struct_pack_le32 (length jpg) = Inr packed"
    and buf': "buf' = slice_assign off (off + 4) packed w"
    using res by (auto simp add: overwriteEmbeddedJpg_eq off_def w_def split: sum.splits)
  have p4: "length packed = 4" using struct_pack_le32_length [OF packed] .
  have b4: "buf' = slice_assign off (off + length packed) packed w" by (simp add: buf' p4)
  have lw: "length buf \<le> length w" unfolding w_def by (rule jpg_written_length_ge)
  have "length w \<le> length buf'" unfolding b4 by (rule length_slice_assign_ge)
  then show "length buf \<le> length buf'" using lw by simp
  show "buf' ! i = buf ! i"
    if "i < length buf" "i < jpgStart e \<or> jpgStart e + jpgLength e \<le> i"
       "i < offsetToLengthField e \<or> offsetToLengthField e + 4 \<le> i" for i
  proof -
    have "buf' ! i = w ! i"
      unfolding b4 using that lw by (intro nth_slice_assign_outside) (auto simp add: p4 off_def)
    also have "\<dots> = buf ! i" unfolding w_def using that(1,2) fits by (rule jpg_written_frame)
    finally show ?thesis .
  qed
  show "length buf' = length buf"
    if "jpgStart e + jpgLength e \<le> length buf" "offsetToLengthField e + 4 \<le> length buf"
  proof -
    have l: "length w = length buf" unfolding w_def by (rule jpg_written_in_range(1) [OF that(1) fits])
    have "off + length packed \<le> length w" using that(2) by (simp add: l p4 off_def)
    from length_slice_assign [OF this] show ?thesis by (simp add: b4 l)
  qed
qed

lemma generateAndInsertEmbeddedJpgs_frame_aux:
  assumes "generateAndInsertEmbeddedJpgs tools image8 recs buf = Inr (fError, out, done)"
  shows "set done \<subseteq> set recs \<and> length buf \<le> length out
       \<and> (\<forall>i < length buf. (\<forall>e \<in> set done. untouched e i) \<longrightarrow> out ! i = buf ! i)
       \<and> ((\<forall>e \<in> set done. inside e (length buf)) \<longrightarrow> length out = length buf)"
  using assms
proof (induction recs arbitrary: buf fError out "done")
  case Nil
  then show ?case by simp
next
  case (Cons e rest)
  show ?case
  proof (cases "decodeDims tools (slice (jpgStart e) (jpgStart e + jpgLength e) buf)")
    case None
    then show ?thesis using Cons.prems by simp
  next
    case (Some dimensions)
    show ?thesis
    proof (cases "newEmbeddedJpg tools image8 dimensions e")
      case None
      then have "generateAndInsertEmbeddedJpgs tools image8 rest buf = Inr (fError, out, done)"
        using Cons.prems Some by simp
      from Cons.IH [OF this] show ?thesis by auto
    next
      case (Some jpg)
      note jpg = this
      have fits: "length jpg \<le> jpgLength e" using jpg by (rule newEmbeddedJpg_fits)
      obtain buf' done' where ow: "overwriteEmbeddedJpg e jpg buf = Inr buf'"
        and rest: "generateAndInsertEmbeddedJpgs tools image8 rest buf' = Inr (fError, out, done')"
        and d: "done = e # done'"
        using Cons.prems \<open>decodeDims tools _ = Some dimensions\<close> jpg
        by (auto split: sum.splits prod.splits)
      note ih = Cons.IH [OF rest]
      note fr = overwriteEmbeddedJpg_frame [OF ow fits]
      have 1: "set done \<subseteq> set (e # rest)" using ih d by auto
      have 2: "length buf \<le> length out" using ih fr(1) by simp
      have 3: "out ! i = buf ! i" if "i < length buf" "\<forall>x \<in> set done. untouched x i" for i
      proof -
        have "out ! i = buf' ! i" using ih that fr(1) d by simp
        also have "\<dots> = buf ! i" using fr(2) [of i] that d by (simp add: untouched_def)
        finally show ?thesis .
      qed
      have 4: "length out = length buf" if "\<forall>x \<in> set done. inside x (length buf)"
      proof -
        have l: "length buf' = length buf" using fr(3) that d by (simp add: inside_def)
        then show ?thesis using ih that d by simp
      qed
      show ?thesis using 1 2 3 4 by blast
    qed
  qed
qed

lemma generateAndInsertEmbeddedJpgs_returns:
  assumes "\<forall>e \<in> set recs. jpgLength e < 2 ^ 32"
  shows "\<exists>r. generateAndInsertEmbeddedJpgs tools image8 recs buf = Inr r"
  using assms
proof (induction recs arbitrary: buf)
  case Nil
  show ?case by (rule exI [of _ "(False, buf, [])"]) simp
next
  case (Cons e rest)
  show ?case
  proof (cases "decodeDims tools (slice (jpgStart e) (jpgStart e + jpgLength e) buf)")
    case None
    then show ?thesis by (intro exI [of _ "(True, buf, [])"]) simp
  next
    case (Some dimensions)
    note dims = this
    show ?thesis
    proof (cases "newEmbeddedJpg tools image8 dimensions e")
      case None
      then show ?thesis using Cons dims by simp
    next
      case (Some jpg)
      have "length jpg \<le> jpgLength e" using Some by (rule newEmbeddedJpg_fits)
      then have "length jpg < 2 ^ 32" using Cons.prems by simp
      then obtain packed where "struct_pack_le32 (length jpg) = Inr packed"
        using struct_pack_le32_ok by blast
      then obtain buf' where ow: "overwriteEmbeddedJpg e jpg buf = Inr buf'"
        by (simp add: overwriteEmbeddedJpg_eq)
      obtain r where "generateAndInsertEmbeddedJpgs tools image8 rest buf' = Inr r"
        using Cons.IH [of buf'] Cons.prems by auto
      then show ?thesis using dims Some ow by (cases r) simp
    qed
  qed
qed

section \<open>Placement of a pre-Bayer input\<close>

lemma fl64_exact:
  assumes "v = of_int m * 2 powi e" "\<bar>m\<bar> < 2 ^ 53" "- 1074 \<le> e"
  shows "fl64 v = v"
  unfolding fl64_def using assms by (rule fl_round_exact)

lemma fl64_half:
  assumes "\<bar>n\<bar> < 2 ^ 53"
  shows "fl64 (of_int n / 2) = of_int n / 2"
proof -
  have "of_int n / 2 = (of_int n :: rat) * 2 powi (- 1)" by (simp add: power_int_minus)
  then show ?thesis using assms by (intro fl64_exact [where m = n and e = "- 1"]) auto
qed

lemma py_int_half:
  assumes "0 \<le> n"
  shows "py_int (of_int n / 2) = n div 2"
proof -
  have "\<lfloor>(of_int n :: rat) / of_int 2\<rfloor> = n div 2" by (rule floor_divide_of_int_eq)
  then show ?thesis using assms by (simp add: py_int_def)
qed

lemma calcAxisPos_center:
  assumes "0 \<le> s" "s < t" "t < 2 ^ 53"
  shows "calcAxisPos s t CENTER = (t - s) div 2"
proof -
  have t: "int_truediv t 2 = of_int t / 2"
    unfolding int_truediv_def using fl64_half [of t] assms by simp
  have s: "int_truediv s 2 = of_int s / 2"
    unfolding int_truediv_def using fl64_half [of s] assms by simp
  have d: "(of_int t :: rat) / 2 - of_int s / 2 = of_int (t - s) / 2" by (simp add: diff_divide_distrib)
  have e: "fl64 (of_int (t - s) / 2) = of_int (t - s) / 2"
    using assms by (intro fl64_half) auto
  have "py_int (fl64 (int_truediv t 2 - int_truediv s 2)) = py_int (of_int (t - s) / 2)"
    unfolding t s d e ..
  also have "\<dots> = (t - s) div 2" using assms by (intro py_int_half) auto
  finally have "py_int (fl64 (int_truediv t 2 - int_truediv s 2)) = (t - s) div 2" .
  then show ?thesis using assms by simp
qed

lemma calcAxisPos_fits:
  assumes "0 \<le> s" "s = t \<or> s \<le> t \<and> t < 2 ^ 53"
  shows "0 \<le> calcAxisPos s t al \<and> calcAxisPos s t al + s \<le> t"
proof (cases "s = t")
  case True
  then show ?thesis by simp
next
  case False
  then have lt: "s < t" and b: "t < 2 ^ 53" using assms by simp_all
  show ?thesis
  proof (cases al)
    case CENTER
    then show ?thesis using calcAxisPos_center [OF assms(1) lt b] lt by simp
  qed (use lt in auto)
qed

lemma calcAxisCrop_fits: "s \<le> t \<Longrightarrow> calcAxisCrop s t al = (0, s)"
  by simp

lemma in_concat_map: "i \<in> set js \<Longrightarrow> v \<in> set (f i) \<Longrightarrow> v \<in> set (concat (map f js))"
  by auto

lemma in_map_upt: "k < n \<Longrightarrow> f k \<in> set (map f [0..<n])"
  by simp

lemma elems2_mem:
  assumes "r < nrows a" "c < ncols a"
  shows "at2 a r c \<in> set (elems2 a)"
  unfolding elems2_def
  by (rule in_concat_map [where i = r]) (use assms in \<open>simp_all add: in_map_upt\<close>)

lemma elems2_cases:
  assumes "v \<in> set (elems2 a)"
  obtains r c where "r < nrows a" "c < ncols a" "v = at2 a r c"
  using assms by (auto simp add: elems2_def)

lemma elems3_mem:
  assumes "r < nrows3 a" "c < ncols3 a" "k < nchan a"
  shows "at3 a r c k \<in> set (elems3 a)"
  unfolding elems3_def
proof (rule in_concat_map [where i = r])
  show "r \<in> set [0..<nrows3 a]" using assms(1) by simp
  show "at3 a r c k \<in> set (concat (map (\<lambda>c. map (at3 a r c) [0..<nchan a]) [0..<ncols3 a]))"
    by (rule in_concat_map [where i = c]) (use assms in \<open>simp_all add: in_map_upt\<close>)
qed

lemma validateBayeredNpyData_error:
  assumes "v \<in> set data" "2 ^ 14 \<le> unat v"
  shows "validateBayeredNpyData exif data = Inr (True, [PrintE ''has pixels >= 2^14 - cannot encode''])"
proof -
  have ne: "data \<noteq> []" using assms(1) by auto
  have "v \<le> Max (set data)" using assms(1) by simp
  then have "unat v \<le> unat (Max (set data))" by (simp add: word_le_nat_alt)
  then show ?thesis using assms(2) ne by (simp add: validateBayeredNpyData_def)
qed

lemma validateBayeredNpyData_ok:
  assumes ne: "data \<noteq> []" and small: "\<forall>v \<in> set data. unat v < 2 ^ 14"
  shows "validateBayeredNpyData exif data =
           Inr (False, if 0 < blackLevel exif \<and> (\<exists>v \<in> set data. unat v < blackLevel exif)
                       then [PrintW ''has pixels < blackLevel''] else [])"
proof -
  have "Max (set data) \<in> set data" using ne by (intro Max_in) auto
  then have mx: "unat (Max (set data)) < 2 ^ 14" using small by blast
  have mn: "Min (set data) \<in> set data" using ne by (intro Min_in) auto
  have "(\<exists>v \<in> set data. unat v < blackLevel exif) \<longleftrightarrow> unat (Min (set data)) < blackLevel exif"
  proof
    assume "\<exists>v \<in> set data. unat v < blackLevel exif"
    then obtain v where v: "v \<in> set data" "unat v < blackLevel exif" by blast
    have "Min (set data) \<le> v" using v(1) by simp
    then have "unat (Min (set data)) \<le> unat v" by (simp add: word_le_nat_alt)
    then show "unat (Min (set data)) < blackLevel exif" using v(2) by simp
  next
    assume "unat (Min (set data)) < blackLevel exif"
    then show "\<exists>v \<in> set data. unat v < blackLevel exif" using mn by blast
  qed
  then show ?thesis using ne mx by (simp add: validateBayeredNpyData_def)
qed

lemma clip_index_range: "0 \<le> clip_index i n \<and> clip_index i n \<le> int n"
  by (simp add: clip_index_def)

lemma slice_range_bound:
  assumes "slice_range a b 1 n = (lo, cnt)"
  shows "lo + cnt \<le> n"
proof -
  have "nat (clip_index a n) + nat (clip_index b n - clip_index a n) \<le> n"
    using clip_index_range [of a n] clip_index_range [of b n] by linarith
  then show ?thesis using assms by (auto simp add: slice_range_def Let_def)
qed

lemma slice_range_inside:
  assumes "0 \<le> a" "a \<le> b" "b \<le> int n"
  shows "slice_range a b 1 n = (nat a, nat (b - a))"
  using assms by (simp add: slice_range_def Let_def clip_index_def)

lemma npyPlacement_fits:
  assumes "columns s \<le> columns (rawDimensions exif)" "rows s \<le> rows (rawDimensions exif)"
  shows "npyPlacement s exif args =
           Inr (\<lparr>coord_x = calcAxisPos (columns s) (columns (rawDimensions exif)) (re_horzalign args),
                 coord_y = calcAxisPos (rows s) (rows (rawDimensions exif)) (re_vertalign args)\<rparr>,
                \<lparr>startx = 0, starty = 0, endx = columns s, endy = rows s\<rparr>)"
proof (cases "s = rawDimensions exif")
  case True
  then show ?thesis by (simp add: npyPlacement_def calcSrcGeomAdjustments_def)
next
  case False
  have "calcResize s (rawDimensions exif) NONE False = Inr None"
    by (simp add: calcResize_def)
  then show ?thesis using False assms
    by (simp add: npyPlacement_def calcSrcGeomAdjustments_def Let_def)
qed

lemma np_getitem2_whole:
  "np_getitem2 input (0, int (nrows input)) (0, int (ncols input))
     = \<lparr>nrows = nrows input, ncols = ncols input, at2 = (\<lambda>r c. at2 input (0 + r) (0 + c))\<rparr>"
  by (simp add: np_getitem2_def slice_range_inside del: One_nat_def)

lemma np_getitem2_mem:
  assumes "i < nrows (np_getitem2 src ys xs)" "j < ncols (np_getitem2 src ys xs)"
  shows "at2 (np_getitem2 src ys xs) i j \<in> set (elems2 src)"
proof -
  obtain y0 h where y: "slice_range (fst ys) (snd ys) 1 (nrows src) = (y0, h)" by force
  obtain x0 w where x: "slice_range (fst xs) (snd xs) 1 (ncols src) = (x0, w)" by force
  have g: "np_getitem2 src ys xs = \<lparr>nrows = h, ncols = w, at2 = (\<lambda>r c. at2 src (y0 + r) (x0 + c))\<rparr>"
    by (simp add: np_getitem2_def y x del: One_nat_def)
  have "y0 + i < nrows src" using slice_range_bound [OF y] assms(1) by (simp add: g)
  moreover have "x0 + j < ncols src" using slice_range_bound [OF x] assms(2) by (simp add: g)
  ultimately show ?thesis by (simp add: g elems2_mem)
qed

lemma np_setitem2_sites:
  assumes "np_setitem2 dst ys xs v = Inr out"
  shows "nrows out = nrows dst \<and> ncols out = ncols dst
       \<and> (\<forall>r c. at2 out r c = at2 dst r c \<or> (\<exists>i < nrows v. \<exists>j < ncols v. at2 out r c = at2 v i j))"
proof -
  obtain ya yb ystep where ys: "ys = (ya, yb, ystep)" by (cases ys) auto
  obtain xa xb xstep where xs: "xs = (xa, xb, xstep)" by (cases xs) auto
  obtain y0 h where y: "slice_range ya yb ystep (nrows dst) = (y0, h)" by force
  obtain x0 w where x: "slice_range xa xb xstep (ncols dst) = (x0, w)" by force
  have shape: "(nrows v = h \<or> nrows v = 1) \<and> (ncols v = w \<or> ncols v = 1)"
    using assms by (auto simp add: np_setitem2_def ys xs y x split: if_splits)
  define sel where "sel = (\<lambda>r c. y0 \<le> r \<and> (r - y0) mod ystep = 0 \<and> (r - y0) div ystep < h
                   \<and> x0 \<le> c \<and> (c - x0) mod xstep = 0 \<and> (c - x0) div xstep < w)"
  have out: "out = dst\<lparr>at2 := (\<lambda>r c.
                if sel r c
                then at2 v (if nrows v = h then (r - y0) div ystep else 0)
                           (if ncols v = w then (c - x0) div xstep else 0)
                else at2 dst r c)\<rparr>"
    using assms shape by (auto simp add: np_setitem2_def ys xs y x sel_def split: if_splits)
  have site: "at2 out r c = at2 dst r c \<or> (\<exists>i < nrows v. \<exists>j < ncols v. at2 out r c = at2 v i j)" for r c
  proof (cases "sel r c")
    case False
    then show ?thesis by (simp add: out)
  next
    case True
    define i where "i = (if nrows v = h then (r - y0) div ystep else 0)"
    define j where "j = (if ncols v = w then (c - x0) div xstep else 0)"
    have "i < nrows v" using True shape by (auto simp add: i_def sel_def)
    moreover have "j < ncols v" using True shape by (auto simp add: j_def sel_def)
    moreover have "at2 out r c = at2 v i j" using True by (simp add: out i_def j_def)
    ultimately show ?thesis by blast
  qed
  show ?thesis using site by (simp add: out)
qed

lemma np_full_sites:
  assumes "np_full r c v = Inr b"
  shows "nrows b = r \<and> ncols b = c \<and> (\<forall>i j. at2 b i j = of_nat v)"
  using assms by (auto simp add: np_full_def split: if_splits)

lemma placeBayer2D_samples:
  assumes "placeBayer2D exif args input = Inr plane"
  shows "nrows plane = nat (rows (rawDimensions exif)) \<and> ncols plane = nat (columns (rawDimensions exif))
       \<and> (\<forall>r c. at2 plane r c = of_nat (blackLevel exif) \<or> at2 plane r c \<in> set (elems2 input))"
proof -
  let ?dims = "\<lparr>columns = int (ncols input), rows = int (nrows input)\<rparr>"
  let ?full = "np_full (nat (rows (rawDimensions exif))) (nat (columns (rawDimensions exif)))
            (blackLevel exif)"
  obtain pc where pc: "npyPlacement ?dims exif args = Inr pc"
    using assms by (cases "npyPlacement ?dims exif args") (simp_all add: placeBayer2D_def)
  obtain pos crop where pcs: "pc = (pos, crop)" by (cases pc)
  obtain b where b: "?full = Inr b"
    using assms by (cases ?full) (simp_all add: placeBayer2D_def pc pcs)
  have s: "np_setitem2 b (coord_y pos, coord_y pos + endy crop, 1)
              (coord_x pos, coord_x pos + endx crop, 1)
              (np_getitem2 input (starty crop, endy crop) (startx crop, endx crop)) = Inr plane"
    using assms by (simp add: placeBayer2D_def pc pcs b del: One_nat_def)
  note fb = np_full_sites [OF b]
  note fs = np_setitem2_sites [OF s]
  have "at2 plane r c = of_nat (blackLevel exif) \<or> at2 plane r c \<in> set (elems2 input)" for r c
    using fs fb np_getitem2_mem [of _ input "(starty crop, endy crop)" "(startx crop, endx crop)"]
    by metis
  then show ?thesis using fs fb by simp
qed

lemma placeBayer2D_fits:
  assumes bl: "blackLevel exif < 2 ^ 16"
    and w: "int (ncols input) = columns (rawDimensions exif)
            \<or> int (ncols input) \<le> columns (rawDimensions exif) \<and> columns (rawDimensions exif) < 2 ^ 53"
    and h: "int (nrows input) = rows (rawDimensions exif)
            \<or> int (nrows input) \<le> rows (rawDimensions exif) \<and> rows (rawDimensions exif) < 2 ^ 53"
  shows "\<exists>plane. placeBayer2D exif args input = Inr plane
       \<and> nrows plane = nat (rows (rawDimensions exif))
       \<and> ncols plane = nat (columns (rawDimensions exif))
       \<and> (\<forall>r c. at2 plane r c =
            (if nat (calcAxisPos (int (nrows input)) (rows (rawDimensions exif)) (re_vertalign args)) \<le> r
                \<and> r < nat (calcAxisPos (int (nrows input)) (rows (rawDimensions exif)) (re_vertalign args))
                        + nrows input
                \<and> nat (calcAxisPos (int (ncols input)) (columns (rawDimensions exif)) (re_horzalign args)) \<le> c
                \<and> c < nat (calcAxisPos (int (ncols input)) (columns (rawDimensions exif)) (re_horzalign args))
                        + ncols input
             then at2 input
                    (r - nat (calcAxisPos (int (nrows input)) (rows (rawDimensions exif)) (re_vertalign args)))
                    (c - nat (calcAxisPos (int (ncols input)) (columns (rawDimensions exif)) (re_horzalign args)))
             else of_nat (blackLevel exif)))"
proof -
  define R where "R = rows (rawDimensions exif)"
  define C where "C = columns (rawDimensions exif)"
  define py where "py = calcAxisPos (int (nrows input)) R (re_vertalign args)"
  define px where "px = calcAxisPos (int (ncols input)) C (re_horzalign args)"
  have fy: "0 \<le> py \<and> py + int (nrows input) \<le> R"
    unfolding py_def using h by (intro calcAxisPos_fits) (auto simp add: R_def)
  have fx: "0 \<le> px \<and> px + int (ncols input) \<le> C"
    unfolding px_def using w by (intro calcAxisPos_fits) (auto simp add: C_def)
  have pl: "npyPlacement \<lparr>columns = int (ncols input), rows = int (nrows input)\<rparr> exif args
              = Inr (\<lparr>coord_x = px, coord_y = py\<rparr>,
                     \<lparr>startx = 0, starty = 0, endx = int (ncols input), endy = int (nrows input)\<rparr>)"
    using npyPlacement_fits [of "\<lparr>columns = int (ncols input), rows = int (nrows input)\<rparr>" exif args]
      w h by (auto simp add: px_def py_def R_def C_def)
  have full: "np_full (nat R) (nat C) (blackLevel exif)
                = Inr \<lparr>nrows = nat R, ncols = nat C, at2 = (\<lambda>i j. of_nat (blackLevel exif))\<rparr>"
    using bl by (simp add: np_full_def)
  have sy: "slice_range py (py + int (nrows input)) 1 (nat R) = (nat py, nrows input)"
    using fy by (simp add: slice_range_inside del: One_nat_def)
  have sx: "slice_range px (px + int (ncols input)) 1 (nat C) = (nat px, ncols input)"
    using fx by (simp add: slice_range_inside del: One_nat_def)
  have "placeBayer2D exif args input
          = np_setitem2 \<lparr>nrows = nat R, ncols = nat C, at2 = (\<lambda>i j. of_nat (blackLevel exif))\<rparr>
              (py, py + int (nrows input), 1) (px, px + int (ncols input), 1)
              \<lparr>nrows = nrows input, ncols = ncols input, at2 = (\<lambda>r c. at2 input (0 + r) (0 + c))\<rparr>"
    by (simp add: placeBayer2D_def pl full np_getitem2_whole R_def [symmetric] C_def [symmetric]
          del: One_nat_def)
  also have "\<dots> = Inr \<lparr>nrows = nat R, ncols = nat C, at2 = (\<lambda>r c.
                  if nat py \<le> r \<and> r < nat py + nrows input \<and> nat px \<le> c \<and> c < nat px + ncols input
                  then at2 input (r - nat py) (c - nat px) else of_nat (blackLevel exif))\<rparr>"
    by (auto simp add: np_setitem2_def sy sx simp del: One_nat_def intro!: ext)
  finally show ?thesis by (simp add: R_def C_def py_def px_def)
qed

lemma rows_of_2x2:
  assumes "nrows a = 2" "ncols a = 2"
  shows "rows_of a = [[at2 a 0 0, at2 a 0 (Suc 0)], [at2 a (Suc 0) 0, at2 a (Suc 0) (Suc 0)]]"
proof -
  have "[0..<2] = [0, Suc 0]" by (simp add: numeral_2_eq_2)
  then show ?thesis using assms by (simp add: rows_of_def)
qed

lemma array2_of_2x2:
  "nrows (array2_of [[a, b], [c, d]]) = 2" "ncols (array2_of [[a, b], [c, d]]) = 2"
  "at2 (array2_of [[a, b], [c, d]]) 0 0 = a" "at2 (array2_of [[a, b], [c, d]]) 0 (Suc 0) = b"
  "at2 (array2_of [[a, b], [c, d]]) (Suc 0) 0 = c" "at2 (array2_of [[a, b], [c, d]]) (Suc 0) (Suc 0) = d"
  by (simp_all add: array2_of_def)

lemma elems2_2x2: "elems2 (array2_of [[a, b], [c, d]]) = [a, b, c, d]"
proof -
  have "[0..<2] = [0, Suc 0]" by (simp add: numeral_2_eq_2)
  then show ?thesis by (simp add: elems2_def array2_of_def)
qed


lemma slice_range_even:
  assumes "0 \<le> p" "p + 2 * int n \<le> int N"
  shows "slice_range p (p + int n * 2) 2 N = (nat p, n)"
  using assms by (simp add: slice_range_def Let_def clip_index_def)

lemma slice_range_odd:
  assumes "0 \<le> p" "p + 2 * int n \<le> int N" "0 < n"
  shows "slice_range (1 + p) (p + int n * 2) 2 N = (Suc (nat p), n)"
proof -
  have "nat (p + int n * 2 - (1 + p)) = 2 * n - 1" using assms by simp
  then have "(nat (p + int n * 2 - (1 + p)) + 2 - 1) div 2 = n" using assms by simp
  moreover have "nat (1 + p) = Suc (nat p)" using assms by simp
  ultimately show ?thesis using assms by (simp add: slice_range_def Let_def clip_index_def)
qed

lemma np_getitem3_whole:
  "np_getitem3 input (0 div 2, (int (nrows3 input) * 2) div 2) (0 div 2, (int (ncols3 input) * 2) div 2) k
     = \<lparr>nrows = nrows3 input, ncols = ncols3 input, at2 = (\<lambda>r c. at3 input (0 + r) (0 + c) k)\<rparr>"
  by (simp add: np_getitem3_def slice_range_inside del: One_nat_def)

lemma np_setitem2_stride:
  assumes y: "slice_range ya yb 2 (nrows dst) = (y0, nrows v)"
    and x: "slice_range xa xb 2 (ncols dst) = (x0, ncols v)"
  shows "np_setitem2 dst (ya, yb, 2) (xa, xb, 2) v
           = Inr \<lparr>nrows = nrows dst, ncols = ncols dst, at2 = (\<lambda>r c.
                if y0 \<le> r \<and> even (r - y0) \<and> (r - y0) div 2 < nrows v
                   \<and> x0 \<le> c \<and> even (c - x0) \<and> (c - x0) div 2 < ncols v
                then at2 v ((r - y0) div 2) ((c - x0) div 2)
                else at2 dst r c)\<rparr>"
  using y x by (cases dst) (auto simp add: np_setitem2_def even_iff_mod_2_eq_zero intro!: ext)

lemma placeBayer4Ch_fits:
  assumes bl: "blackLevel exif < 2 ^ 16"
    and nonempty: "0 < nrows3 input" "0 < ncols3 input"
    and w: "int (ncols3 input) * 2 = columns (rawDimensions exif)
            \<or> int (ncols3 input) * 2 \<le> columns (rawDimensions exif) \<and> columns (rawDimensions exif) < 2 ^ 53"
    and h: "int (nrows3 input) * 2 = rows (rawDimensions exif)
            \<or> int (nrows3 input) * 2 \<le> rows (rawDimensions exif) \<and> rows (rawDimensions exif) < 2 ^ 53"
  shows "\<exists>plane. placeBayer4Ch exif args input = Inr plane
       \<and> nrows plane = nat (rows (rawDimensions exif))
       \<and> ncols plane = nat (columns (rawDimensions exif))
       \<and> (\<forall>r c. at2 plane r c =
            (if nat (calcAxisPos (int (nrows3 input) * 2) (rows (rawDimensions exif)) (re_vertalign args)) \<le> r
                \<and> r < nat (calcAxisPos (int (nrows3 input) * 2) (rows (rawDimensions exif)) (re_vertalign args))
                        + 2 * nrows3 input
                \<and> nat (calcAxisPos (int (ncols3 input) * 2) (columns (rawDimensions exif)) (re_horzalign args)) \<le> c
                \<and> c < nat (calcAxisPos (int (ncols3 input) * 2) (columns (rawDimensions exif)) (re_horzalign args))
                        + 2 * ncols3 input
             then at3 input
                    ((r - nat (calcAxisPos (int (nrows3 input) * 2) (rows (rawDimensions exif))
                                 (re_vertalign args))) div 2)
                    ((c - nat (calcAxisPos (int (ncols3 input) * 2) (columns (rawDimensions exif))
                                 (re_horzalign args))) div 2)
                    (2 * ((r - nat (calcAxisPos (int (nrows3 input) * 2) (rows (rawDimensions exif))
                                      (re_vertalign args))) mod 2)
                     + (c - nat (calcAxisPos (int (ncols3 input) * 2) (columns (rawDimensions exif))
                                   (re_horzalign args))) mod 2)
             else of_nat (blackLevel exif)))"
proof -
  define R where "R = rows (rawDimensions exif)"
  define C where "C = columns (rawDimensions exif)"
  define H where "H = nrows3 input"
  define W where "W = ncols3 input"
  define py where "py = calcAxisPos (int H * 2) R (re_vertalign args)"
  define px where "px = calcAxisPos (int W * 2) C (re_horzalign args)"
  have fy: "0 \<le> py \<and> py + int H * 2 \<le> R"
    unfolding py_def using h by (intro calcAxisPos_fits) (auto simp add: R_def H_def)
  have fx: "0 \<le> px \<and> px + int W * 2 \<le> C"
    unfolding px_def using w by (intro calcAxisPos_fits) (auto simp add: C_def W_def)
  have pl: "npyPlacement \<lparr>columns = int W * 2, rows = int H * 2\<rparr> exif args
              = Inr (\<lparr>coord_x = px, coord_y = py\<rparr>,
                     \<lparr>startx = 0, starty = 0, endx = int W * 2, endy = int H * 2\<rparr>)"
    using npyPlacement_fits [of "\<lparr>columns = int W * 2, rows = int H * 2\<rparr>" exif args]
      w h by (auto simp add: px_def py_def R_def C_def H_def W_def)
  define b0 :: "u16 array2" where
    "b0 = \<lparr>nrows = nat R, ncols = nat C, at2 = (\<lambda>i j. of_nat (blackLevel exif))\<rparr>"
  have full: "np_full (nat R) (nat C) (blackLevel exif) = Inr b0"
    using bl by (simp add: np_full_def b0_def)
  define chan where "chan = (\<lambda>k. \<lparr>nrows = H, ncols = W, at2 = (\<lambda>r c. at3 input (0 + r) (0 + c) k)\<rparr>)"
  have ch: "np_getitem3 input (0, int H) (0, int W) k = chan k" for k
    using np_getitem3_whole [of input k] by (simp add: H_def W_def chan_def)
  have ye: "slice_range (0 + py) (py + int H * 2) 2 (nat R) = (nat py, H)"
    using fy slice_range_even [of py H "nat R"] by simp
  have yo: "slice_range (1 + py) (py + int H * 2) 2 (nat R) = (Suc (nat py), H)"
    using fy nonempty slice_range_odd [of py H "nat R"] by (simp add: H_def)
  have xe: "slice_range (0 + px) (px + int W * 2) 2 (nat C) = (nat px, W)"
    using fx slice_range_even [of px W "nat C"] by simp
  have xo: "slice_range (1 + px) (px + int W * 2) 2 (nat C) = (Suc (nat px), W)"
    using fx nonempty slice_range_odd [of px W "nat C"] by (simp add: W_def)
  define sel where "sel = (\<lambda>(y0::nat) (x0::nat) r c. y0 \<le> r \<and> even (r - y0) \<and> (r - y0) div 2 < H
                   \<and> x0 \<le> c \<and> even (c - x0) \<and> (c - x0) div 2 < W)"
  define put where "put = (\<lambda>(y0::nat) (x0::nat) k (dst :: u16 array2).
      \<lparr>nrows = nrows dst, ncols = ncols dst, at2 = (\<lambda>r c.
          if sel y0 x0 r c then at3 input ((r - y0) div 2) ((c - x0) div 2) k else at2 dst r c)\<rparr>)"
  have set_e_e: "np_setitem2 dst (py, py + int H * 2, 2) (px, px + int W * 2, 2) (chan k)
      = Inr (put (nat py) (nat px) k dst)" if "nrows dst = nat R" "ncols dst = nat C" for dst k
    using np_setitem2_stride [of "0 + py" "py + int H * 2" dst "nat py" "chan k" "0 + px" "px + int W * 2" "nat px"]
      ye xe that by (simp add: chan_def put_def sel_def cong: if_cong)
  have set_e_o: "np_setitem2 dst (py, py + int H * 2, 2) (1 + px, px + int W * 2, 2) (chan k)
      = Inr (put (nat py) (Suc (nat px)) k dst)" if "nrows dst = nat R" "ncols dst = nat C" for dst k
    using np_setitem2_stride [of "0 + py" "py + int H * 2" dst "nat py" "chan k" "1 + px" "px + int W * 2" "Suc (nat px)"]
      ye xo that by (simp add: chan_def put_def sel_def cong: if_cong)
  have set_o_e: "np_setitem2 dst (1 + py, py + int H * 2, 2) (px, px + int W * 2, 2) (chan k)
      = Inr (put (Suc (nat py)) (nat px) k dst)" if "nrows dst = nat R" "ncols dst = nat C" for dst k
    using np_setitem2_stride [of "1 + py" "py + int H * 2" dst "Suc (nat py)" "chan k" "0 + px" "px + int W * 2" "nat px"]
      yo xe that by (simp add: chan_def put_def sel_def cong: if_cong)
  have set_o_o: "np_setitem2 dst (1 + py, py + int H * 2, 2) (1 + px, px + int W * 2, 2) (chan k)
      = Inr (put (Suc (nat py)) (Suc (nat px)) k dst)" if "nrows dst = nat R" "ncols dst = nat C" for dst k
    using np_setitem2_stride [of "1 + py" "py + int H * 2" dst "Suc (nat py)" "chan k" "1 + px" "px + int W * 2" "Suc (nat px)"]
      yo xo that by (simp add: chan_def put_def sel_def cong: if_cong)
  have shape: "nrows (put y0 x0 k dst) = nrows dst" "ncols (put y0 x0 k dst) = ncols dst" for y0 x0 k dst
    by (simp_all add: put_def)
  define plane where "plane = put (Suc (nat py)) (Suc (nat px)) 3
      (put (Suc (nat py)) (nat px) 2 (put (nat py) (Suc (nat px)) 1 (put (nat py) (nat px) 0 b0)))"
  have b0s: "nrows b0 = nat R" "ncols b0 = nat C" by (simp_all add: b0_def)
  have res: "placeBayer4Ch exif args input = Inr plane"
    unfolding placeBayer4Ch_def H_def [symmetric] W_def [symmetric] pl
    by (simp add: full R_def [symmetric] C_def [symmetric] Let_def ch set_e_e set_e_o set_o_e set_o_o
          shape b0s plane_def del: One_nat_def)
  have site: "at2 plane r c =
      (if nat py \<le> r \<and> r < nat py + 2 * H \<and> nat px \<le> c \<and> c < nat px + 2 * W
       then at3 input ((r - nat py) div 2) ((c - nat px) div 2)
              (2 * ((r - nat py) mod 2) + (c - nat px) mod 2)
       else of_nat (blackLevel exif))" for r c
  proof (cases "nat py \<le> r \<and> r < nat py + 2 * H \<and> nat px \<le> c \<and> c < nat px + 2 * W")
    case False
    have rng: "p \<le> a \<and> a < p + 2 * n"
      if "a0 \<le> a" "even (a - a0)" "(a - a0) div 2 < n" "a0 = p \<or> a0 = Suc p" for a0 a p n :: nat
    proof -
      from that(2) obtain k where k: "a - a0 = 2 * k" by (elim evenE)
      then have "k < n" using that(3) by simp
      then show ?thesis using k that(1,4) by auto
    qed
    have "\<not> sel y0 x0 r c" if "y0 = nat py \<or> y0 = Suc (nat py)" "x0 = nat px \<or> x0 = Suc (nat px)" for y0 x0
      using False rng [of y0 r H "nat py"] rng [of x0 c W "nat px"] that unfolding sel_def by blast
    then have "at2 plane r c = of_nat (blackLevel exif)" by (simp add: plane_def put_def b0_def)
    then show ?thesis using False by (simp only: if_False)
  next
    case True
    define i where "i = r - nat py"
    define j where "j = c - nat px"
    have r: "r = nat py + i" and c: "c = nat px + j" and i: "i < 2 * H" and j: "j < 2 * W"
      using True by (auto simp add: i_def j_def)
    have s: "sel (nat py) (nat px) r c \<longleftrightarrow> even i \<and> even j"
      "sel (nat py) (Suc (nat px)) r c \<longleftrightarrow> even i \<and> odd j"
      "sel (Suc (nat py)) (nat px) r c \<longleftrightarrow> odd i \<and> even j"
      "sel (Suc (nat py)) (Suc (nat px)) r c \<longleftrightarrow> odd i \<and> odd j"
      using i j unfolding sel_def r c by (auto elim: oddE)
    have d: "(r - Suc (nat py)) div 2 = i div 2" if "odd i"
      using that unfolding r by (auto elim: oddE)
    have e: "(c - Suc (nat px)) div 2 = j div 2" if "odd j"
      using that unfolding c by (auto elim: oddE)
    have k: "2 * (i mod 2) + j mod 2 = (if even i then (if even j then 0 else 1) else (if even j then 2 else 3))"
      by (auto simp add: mod_2_eq_odd)
    show ?thesis
      using True s d e unfolding plane_def put_def
      by (simp add: i_def [symmetric] j_def [symmetric] k)
  qed
  show ?thesis
    using res site shape b0s
    by (simp add: plane_def R_def C_def H_def W_def py_def px_def)
qed

section \<open>The Bayer phase: rounding and truncation\<close>

lemma fl32_of_int: "\<bar>n\<bar> < 2 ^ 24 \<Longrightarrow> fl32 (of_int n) = of_int n"
  unfolding fl32_def by (rule fl_round_of_int) auto

lemma fl32_mono: "0 \<le> v \<Longrightarrow> v \<le> w \<Longrightarrow> fl32 v \<le> fl32 w"
  unfolding fl32_def by (rule fl_round_mono) auto

lemma fl32_nonneg: "0 \<le> v \<Longrightarrow> 0 \<le> fl32 v"
  unfolding fl32_def by (rule fl_round_nonneg)

lemma fl32_exact:
  assumes "v = of_int m * 2 powi e" "\<bar>m\<bar> < 2 ^ 24" "- 149 \<le> e"
  shows "fl32 v = v"
  unfolding fl32_def using assms by (rule fl_round_exact)

lemma fl32_int_half:
  assumes "\<bar>2 * n + 1\<bar> < 2 ^ 24"
  shows "fl32 (of_int n + 1 / 2) = of_int n + 1 / 2"
proof -
  have "of_int n + 1 / 2 = (of_int (2 * n + 1) :: rat) * 2 powi (- 1)"
    by (simp add: power_int_minus field_simps)
  then show ?thesis using assms by (intro fl32_exact [where m = "2 * n + 1" and e = "- 1"]) auto
qed

lemma floor_fl32_bounds:
  assumes x: "0 \<le> x" "x \<le> 2 ^ 22"
  shows "\<lfloor>x\<rfloor> \<le> \<lfloor>fl32 x\<rfloor>" and "\<lfloor>fl32 x\<rfloor> \<le> py_round x"
proof -
  have f0: "0 \<le> \<lfloor>x\<rfloor>" using x by simp
  have "\<lfloor>x\<rfloor> \<le> \<lfloor>(2::rat) ^ 22\<rfloor>" using x(2) by (rule floor_mono)
  then have f1: "\<lfloor>x\<rfloor> \<le> 2 ^ 22" by simp
  have "fl32 (of_int \<lfloor>x\<rfloor>) \<le> fl32 x" using f0 by (intro fl32_mono) auto
  moreover have "fl32 (of_int \<lfloor>x\<rfloor>) = of_int \<lfloor>x\<rfloor>" using f0 f1 by (intro fl32_of_int) simp
  ultimately show "\<lfloor>x\<rfloor> \<le> \<lfloor>fl32 x\<rfloor>" by (simp add: le_floor_iff)
  define n where "n = py_round x"
  have "py_round 0 \<le> py_round x" using x(1) by (rule py_round_mono)
  then have n0: "0 \<le> n" by (simp add: n_def py_round_def)
  have "py_round x \<le> py_round (of_int (2 ^ 22))" using x(2) by (intro py_round_mono) simp
  then have n1: "n \<le> 2 ^ 22" unfolding n_def py_round_of_int .
  have "x \<le> of_int n + 1 / 2" using py_round_err [of x] unfolding n_def by linarith
  then have "fl32 x \<le> fl32 (of_int n + 1 / 2)" using x(1) by (intro fl32_mono)
  moreover have "fl32 (of_int n + 1 / 2) = of_int n + 1 / 2" using n0 n1 by (intro fl32_int_half) simp
  ultimately have "fl32 x < of_int n + 1" by simp
  then have "\<lfloor>fl32 x\<rfloor> < n + 1" using floor_less_iff [of "fl32 x" "n + 1"] by simp
  then show "\<lfloor>fl32 x\<rfloor> \<le> py_round x" by (simp add: n_def)
qed

lemma map_array2_simps [simp]:
  "nrows (map_array2 f a) = nrows a" "ncols (map_array2 f a) = ncols a"
  "at2 (map_array2 f a) r c = f (at2 a r c)"
  by (simp_all add: map_array2_def)

lemma elems2_map_array2: "elems2 (map_array2 f a) = map f (elems2 a)"
  by (simp add: elems2_def map_array2_def map_concat comp_def)

lemma list_all_elems2:
  "list_all P (elems2 a) \<longleftrightarrow> (\<forall>r<nrows a. \<forall>c<ncols a. P (at2 a r c))"
  by (auto simp add: list_all_iff elems2_mem elim: elems2_cases)

lemma unat_astype_uint16:
  assumes "0 \<le> v" "v < 65536"
  shows "int (unat (astype_uint16 v)) = \<lfloor>v\<rfloor>"
proof -
  have "0 \<le> \<lfloor>v\<rfloor>" using assms by simp
  moreover have "\<lfloor>v\<rfloor> < 65536" using assms by (simp add: floor_less_iff)
  ultimately have "uint (word_of_int \<lfloor>v\<rfloor> :: u16) = \<lfloor>v\<rfloor>"
    by (simp add: uint_word_of_int take_bit_int_eq_self)
  then show ?thesis using assms by (simp add: astype_uint16_def py_int_def)
qed

lemma scale14_bounds:
  assumes bl: "bl \<le> 16383" and v: "0 \<le> v" "v \<le> 1"
  defines "k \<equiv> 16383 - int bl"
  shows "fl32 (v * fl32 (of_int k)) = fl32 (v * of_int k)"
    and "0 \<le> fl32 (v * of_int k)" and "fl32 (v * of_int k) \<le> of_int k"
proof -
  have k: "0 \<le> k" "k \<le> 16383" using bl by (simp_all add: k_def)
  have fk: "fl32 (of_int k) = of_int k" using k by (intro fl32_of_int) simp
  show "fl32 (v * fl32 (of_int k)) = fl32 (v * of_int k)" by (simp add: fk)
  have x0: "0 \<le> v * of_int k" using v k by simp
  then show "0 \<le> fl32 (v * of_int k)" by (rule fl32_nonneg)
  have "v * of_int k \<le> 1 * of_int k" using v k by (intro mult_right_mono) simp_all
  then have "fl32 (v * of_int k) \<le> fl32 (of_int k)" using x0 by (intro fl32_mono) simp_all
  then show "fl32 (v * of_int k) \<le> of_int k" by (simp add: fk)
qed

lemma rows_of_map_array2_2x2:
  "rows_of (map_array2 f (array2_of [[a, b], [c, d]])) = [[f a, f b], [f c, f d]]"
  by (simp add: rows_of_2x2 array2_of_2x2)

lemma map_array2_compose: "map_array2 f (map_array2 g a) = map_array2 (\<lambda>v. f (g v)) a"
  by (simp add: map_array2_def)

lemma fl64_mono: "0 \<le> v \<Longrightarrow> v \<le> w \<Longrightarrow> fl64 v \<le> fl64 w"
  unfolding fl64_def by (rule fl_round_mono) auto


















section \<open>Validation and the way to the encoder\<close>

lemma elems2_nonempty: "elems2 a \<noteq> [] \<Longrightarrow> 0 < nrows a \<and> 0 < ncols a"
  by (auto simp add: elems2_def)

lemma elems3_nonempty: "elems3 b \<noteq> [] \<Longrightarrow> 0 < nrows3 b \<and> 0 < ncols3 b"
  by (auto simp add: elems3_def)

lemma validateBayeredNpyData_flag:
  assumes "validateBayeredNpyData exif data = Inr (fError, msgs)"
  shows "fError \<longleftrightarrow> list_ex (\<lambda>v. 2 ^ 14 \<le> unat v) data"
proof (cases "\<exists>v \<in> set data. 2 ^ 14 \<le> unat v")
  case True
  then obtain v where "v \<in> set data" "2 ^ 14 \<le> unat v" by blast
  from validateBayeredNpyData_error [OF this, of exif] assms True
  show ?thesis by (simp add: list_ex_iff)
next
  case False
  then have s: "\<forall>v \<in> set data. unat v < 2 ^ 14" by auto
  have "data \<noteq> []" using assms by (auto simp add: validateBayeredNpyData_def)
  from validateBayeredNpyData_ok [OF this s, of exif] assms False
  show ?thesis by (simp add: list_ex_iff)
qed

lemma validateBayeredNpyData_warning:
  assumes "data \<noteq> []" "list_all (\<lambda>v. unat v < 2 ^ 14) data" "0 < blackLevel exif"
    "list_ex (\<lambda>v. unat v < blackLevel exif) data"
  shows "validateBayeredNpyData exif data = Inr (False, [PrintW ''has pixels < blackLevel''])"
  using validateBayeredNpyData_ok [of data exif] assms by (simp add: list_all_iff list_ex_iff)

lemma bytesUncompressed_pos:
  fixes c r :: int
  assumes "0 < c" "0 < r"
  shows "py_int (int_truediv (c * r * 14) 8) \<noteq> 0"
proof -
  have "1 \<le> c * r" using assms by (simp add: mult_pos_pos int_one_le_iff_zero_less)
  then have "(1 :: rat) \<le> of_int (c * r)" by (subst of_int_1_le_iff)
  then have x: "(7 / 4 :: rat) \<le> of_int (c * r * 14) / of_int 8" by simp
  have "(7 / 4 :: rat) = of_int 7 * 2 powi (- 2)" by (simp add: power_int_minus)
  then have e: "fl64 (7 / 4) = 7 / 4" by (intro fl64_exact [where m = 7 and e = "- 2"]) auto
  have "fl64 (7 / 4) \<le> fl64 (of_int (c * r * 14) / of_int 8)" using x by (intro fl64_mono) simp_all
  then have "1 \<le> int_truediv (c * r * 14) 8" unfolding int_truediv_def e by simp
  then have f: "1 \<le> \<lfloor>int_truediv (c * r * 14) 8\<rfloor>" and nn: "0 \<le> int_truediv (c * r * 14) 8"
    by (simp_all add: le_floor_iff)
  from nn have "py_int (int_truediv (c * r * 14) 8) = \<lfloor>int_truediv (c * r * 14) 8\<rfloor>"
    by (simp add: py_int_def)
  with f show ?thesis by linarith
qed

lemma run_plane:
  assumes "processSourceNumpy exif args processSourceImageData loaded = Inr (msgs, img, Some plane)"
  shows "run exif args processSourceImageData encode preview tools templateFile outputFilename writeFile
           openinviewer loaded =
           (case encode plane of
              Inl e \<Rightarrow> Inl e
            | Inr (encoderMsgs, None) \<Rightarrow> Inr (msgs @ encoderMsgs, True, None)
            | Inr (encoderMsgs, Some encodedImageData) \<Rightarrow>
                if py_int (int_truediv (columns (rawDimensions exif) * rows (rawDimensions exif) * 14) 8) = 0
                then Inl ZeroDivisionError
                else
                  (case writeOutputNEF exif tools templateFile (preview img) outputFilename writeFile
                          openinviewer encodedImageData of
                     Inl e \<Rightarrow> Inl e
                   | Inr (writeMsgs, fWriteFailed, written) \<Rightarrow>
                       Inr (msgs @ encoderMsgs @ writeMsgs
                              @ (if fWriteFailed then [PrintE ''Error generating/writing output NEF'']
                                 else []),
                            fWriteFailed, written)))"
  by (simp add: run_def assms Let_def split: sum.splits option.splits prod.splits)

lemma placeBayer2D_keeps_samples:
  assumes "blackLevel exif < 2 ^ 16"
    and "int (ncols a) \<le> columns (rawDimensions exif)" "columns (rawDimensions exif) < 2 ^ 53"
    and "int (nrows a) \<le> rows (rawDimensions exif)" "rows (rawDimensions exif) < 2 ^ 53"
  shows "\<exists>plane. placeBayer2D exif args a = Inr plane
       \<and> nrows plane = nat (rows (rawDimensions exif))
       \<and> ncols plane = nat (columns (rawDimensions exif))
       \<and> (\<forall>r < nrows a. \<forall>c < ncols a.
            at2 plane (nat (calcAxisPos (int (nrows a)) (rows (rawDimensions exif)) (re_vertalign args)) + r)
                      (nat (calcAxisPos (int (ncols a)) (columns (rawDimensions exif)) (re_horzalign args)) + c)
              = at2 a r c)"
proof -
  from placeBayer2D_fits [of exif a args] assms
  obtain plane where p: "placeBayer2D exif args a = Inr plane"
    "nrows plane = nat (rows (rawDimensions exif))" "ncols plane = nat (columns (rawDimensions exif))"
    and sites: "\<forall>r c. at2 plane r c =
            (if nat (calcAxisPos (int (nrows a)) (rows (rawDimensions exif)) (re_vertalign args)) \<le> r
                \<and> r < nat (calcAxisPos (int (nrows a)) (rows (rawDimensions exif)) (re_vertalign args))
                        + nrows a
                \<and> nat (calcAxisPos (int (ncols a)) (columns (rawDimensions exif)) (re_horzalign args)) \<le> c
                \<and> c < nat (calcAxisPos (int (ncols a)) (columns (rawDimensions exif)) (re_horzalign args))
                        + ncols a
             then at2 a
                    (r - nat (calcAxisPos (int (nrows a)) (rows (rawDimensions exif)) (re_vertalign args)))
                    (c - nat (calcAxisPos (int (ncols a)) (columns (rawDimensions exif)) (re_horzalign args)))
             else of_nat (blackLevel exif))"
    by blast
  show ?thesis using p by (simp add: sites del: calcAxisPos.simps)
qed

lemma placeBayer4Ch_keeps_samples:
  assumes "blackLevel exif < 2 ^ 16" "0 < nrows3 b" "0 < ncols3 b"
    and "int (ncols3 b) * 2 \<le> columns (rawDimensions exif)" "columns (rawDimensions exif) < 2 ^ 53"
    and "int (nrows3 b) * 2 \<le> rows (rawDimensions exif)" "rows (rawDimensions exif) < 2 ^ 53"
  shows "\<exists>plane. placeBayer4Ch exif args b = Inr plane
       \<and> nrows plane = nat (rows (rawDimensions exif))
       \<and> ncols plane = nat (columns (rawDimensions exif))
       \<and> (\<forall>r < nrows3 b. \<forall>c < ncols3 b. \<forall>k < 4.
            at2 plane
              (nat (calcAxisPos (int (nrows3 b) * 2) (rows (rawDimensions exif)) (re_vertalign args))
                 + 2 * r + k div 2)
              (nat (calcAxisPos (int (ncols3 b) * 2) (columns (rawDimensions exif)) (re_horzalign args))
                 + 2 * c + k mod 2)
              = at3 b r c k)"
proof -
  define py where "py = nat (calcAxisPos (int (nrows3 b) * 2) (rows (rawDimensions exif)) (re_vertalign args))"
  define px where "px = nat (calcAxisPos (int (ncols3 b) * 2) (columns (rawDimensions exif)) (re_horzalign args))"
  from placeBayer4Ch_fits [of exif b args] assms
  obtain plane where p: "placeBayer4Ch exif args b = Inr plane"
    "nrows plane = nat (rows (rawDimensions exif))" "ncols plane = nat (columns (rawDimensions exif))"
    and sites: "\<forall>r c. at2 plane r c =
            (if py \<le> r \<and> r < py + 2 * nrows3 b \<and> px \<le> c \<and> c < px + 2 * ncols3 b
             then at3 b ((r - py) div 2) ((c - px) div 2) (2 * ((r - py) mod 2) + (c - px) mod 2)
             else of_nat (blackLevel exif))"
    unfolding py_def px_def by blast
  have "at2 plane (py + 2 * r + k div 2) (px + 2 * c + k mod 2) = at3 b r c k"
    if "r < nrows3 b" "c < ncols3 b" "k < 4" for r c k
  proof -
    have kd: "k div 2 < 2" using that(3) by simp
    have a: "py + 2 * r + k div 2 - py = 2 * r + k div 2" "px + 2 * c + k mod 2 - px = 2 * c + k mod 2"
      by simp_all
    have b: "(2 * r + k div 2) div 2 = r" "(2 * r + k div 2) mod 2 = k div 2"
      "(2 * c + k mod 2) div 2 = c" "(2 * c + k mod 2) mod 2 = k mod 2"
      using kd by simp_all
    have rng: "py + 2 * r + k div 2 < py + 2 * nrows3 b" "px + 2 * c + k mod 2 < px + 2 * ncols3 b"
      using that kd by simp_all
    show ?thesis unfolding sites [rule_format] a b using rng by simp
  qed
  then show ?thesis using p unfolding py_def px_def by blast
qed

section \<open>Rounding errors of the FULL resize\<close>

lemma q_bounds: "(0::rat) < 1 - 1 / 2 ^ 53" "(1::rat) - 1 / 2 ^ 53 \<le> 1" "(1::rat) - 1 / 2 ^ 53 < 1"
  by simp_all























section \<open>Properties of the geometry planner\<close>

text \<open>
  Claim C4 (centre crop). The claim: for a source extent strictly above the target extent
  and CENTER alignment, \<open>calcAxisCrop\<close> returns a half-open range whose length is the
  target extent, the low side losing \<open>\<lfloor>surplus / 2\<rfloor>\<close> and the high side
  \<open>\<lceil>surplus / 2\<rceil>\<close> pixels. The code rounds \<open>surplus / 2\<close> and
  \<open>src - surplus / 2 - surplus % 2\<close> with Python's \<open>round\<close>, which sends a tie to the
  even neighbour. For a 6051-column source and a 6048-column raw the surplus is 3: the range
  is \<open>[2, 6048)\<close>, 6046 columns long, where the claim asks for \<open>[1, 6049)\<close>. The same
  happens for 7 into 4, which gives \<open>[2, 4)\<close>.
\<close>

theorem calcAxisCrop_center_odd_surplus:
  "calcAxisCrop 6051 6048 CENTER = (2, 6048) \<and> calcAxisCrop 7 4 CENTER = (2, 4)"
  by code_simp

section \<open>Properties of the assembled buffer\<close>

text \<open>
  Claim C1 (assembly of the output buffer). The claim: for every donor metadata record and
  every compressed strip, the buffer built by \<open>writeOutputNEF\<close> has length
  \<open>stripOffset + len(compressedStrip)\<close>, starts with the donor bytes \<open>[0, stripOffset)\<close>,
  continues with the strip, and has the four bytes at \<open>fileOffsetToStripByteCount\<close>
  overwritten with the strip length, little-endian. The strip length is written with a slice
  assignment, which Python clips to the buffer: a count field that the buffer does not
  contain is appended instead. For a 10-byte template with \<open>stripOffset = 4\<close> and the count
  field at offset 6, behind the strip, and a 1-byte strip, the buffer is 9 bytes long, not 5.
\<close>

theorem writeOutputNEF_newNefData_field_behind_strip:
  "writeOutputNEF_newNefData
     \<lparr>rawDimensions = \<lparr>columns = 2, rows = 2\<rparr>, stripOffset = 4, fileOffsetToStripByteCount = 6,
      wbMultipliers = \<lparr>red = 2, blue = 3 / 2\<rparr>, blackLevel = 0, embeddedJpgs = []\<rparr>
     [1, 2, 3, 4, 5, 6, 7, 8, 9, 10] [0xAA]
   = Inr [1, 2, 3, 4, 0xAA, 1, 0, 0, 0]"
  by (simp add: writeOutputNEF_newNefData_def slice_assign_def struct_pack_le32_def Let_def)

text \<open>
  Claim C1, amended: when the template file has at least \<open>stripOffset\<close> bytes, the count
  field lies inside the assembled buffer (\<open>fileOffsetToStripByteCount + 4 \<le> stripOffset +
  len(compressedStrip)\<close>) and the strip is shorter than \<open>2 ^ 32\<close> bytes, the buffer has
  length \<open>stripOffset + len(compressedStrip)\<close>, agrees with the donor prefix followed by
  the strip at every index outside the count field, and holds the strip length in the count
  field, little-endian.
\<close>

theorem writeOutputNEF_newNefData_in_range:
  assumes tf: "stripOffset exif \<le> length templateFile"
    and field: "fileOffsetToStripByteCount exif + 4 \<le> stripOffset exif + length encodedImageData"
    and size: "length encodedImageData < 2 ^ 32"
  shows "\<exists>newNefData.
           writeOutputNEF_newNefData exif templateFile encodedImageData = Inr newNefData
         \<and> length newNefData = stripOffset exif + length encodedImageData
         \<and> (\<forall>i < length newNefData.
              i < fileOffsetToStripByteCount exif \<or> fileOffsetToStripByteCount exif + 4 \<le> i \<longrightarrow>
              newNefData ! i = (take (stripOffset exif) templateFile @ encodedImageData) ! i)
         \<and> read_le32 newNefData (fileOffsetToStripByteCount exif) = length encodedImageData"
proof -
  define off where "off = fileOffsetToStripByteCount exif"
  define base where "base = take (stripOffset exif) templateFile @ encodedImageData"
  obtain packed where packed: "struct_pack_le32 (length encodedImageData) = Inr packed"
    using size by (simp add: struct_pack_le32_def)
  have p4: "length packed = 4" using struct_pack_le32_length [OF packed] .
  have lb: "length base = stripOffset exif + length encodedImageData"
    using tf by (simp add: base_def)
  have fit: "off + length packed \<le> length base" using field by (simp add: off_def p4 lb)
  have res: "writeOutputNEF_newNefData exif templateFile encodedImageData
               = Inr (slice_assign off (off + 4) packed base)"
    unfolding writeOutputNEF_newNefData_def Let_def newNefData_before_patch [OF tf]
    by (simp add: packed off_def base_def)
  have len: "length (slice_assign off (off + 4) packed base) = length base"
    using length_slice_assign [OF fit] by (simp add: p4)
  have frame: "slice_assign off (off + 4) packed base ! i = base ! i"
    if "i < length base" "i < off \<or> off + 4 \<le> i" for i
    using nth_slice_assign_outside [of i base off packed] that by (simp add: p4)
  have rd: "read_le32 (slice_assign off (off + 4) packed base) off = length encodedImageData"
    using read_le32_slice_assign [OF packed] fit by (simp add: p4)
  show ?thesis
    using res len frame rd lb by (auto simp add: off_def base_def)
qed

theorem writeOutputNEF_newNefData_in_range_witness:
  "stripOffset \<lparr>rawDimensions = \<lparr>columns = 2, rows = 2\<rparr>, stripOffset = 8,
        fileOffsetToStripByteCount = 4, wbMultipliers = \<lparr>red = 2, blue = 3 / 2\<rparr>,
        blackLevel = 0, embeddedJpgs = []\<rparr> \<le> length [1, 2, 3, 4, 5, 6, 7, 8, 9, 10 :: byte]
   \<and> (4::nat) + 4 \<le> 8 + length [0xAA, 0xBB, 0xCC :: byte]
   \<and> length [0xAA, 0xBB, 0xCC :: byte] < 2 ^ 32
   \<and> (\<exists>newNefData.
         writeOutputNEF_newNefData
           \<lparr>rawDimensions = \<lparr>columns = 2, rows = 2\<rparr>, stripOffset = 8,
            fileOffsetToStripByteCount = 4, wbMultipliers = \<lparr>red = 2, blue = 3 / 2\<rparr>,
            blackLevel = 0, embeddedJpgs = []\<rparr>
           [1, 2, 3, 4, 5, 6, 7, 8, 9, 10] [0xAA, 0xBB, 0xCC] = Inr newNefData
       \<and> length newNefData = 11
       \<and> read_le32 newNefData 4 = 3)"
  using writeOutputNEF_newNefData_in_range
    [of "\<lparr>rawDimensions = \<lparr>columns = 2, rows = 2\<rparr>, stripOffset = 8,
          fileOffsetToStripByteCount = 4, wbMultipliers = \<lparr>red = 2, blue = 3 / 2\<rparr>,
          blackLevel = 0, embeddedJpgs = []\<rparr>"
        "[1, 2, 3, 4, 5, 6, 7, 8, 9, 10]" "[0xAA, 0xBB, 0xCC]"]
  by auto

section \<open>Properties of the preview overwrite\<close>

text \<open>
  Claim C7 (overwrite of one preview record). The claim: whenever a replacement JPEG is
  produced for a record it is no longer than the record's original length, its bytes are
  copied over the donor bytes at the original start offset, the unused bytes up to the
  original end are zero, and the length field at the record's length-field offset holds the
  new length, little-endian. The three writes are slice assignments, clipped to the buffer,
  and the length field is written last, wherever it lies. For an 8-byte buffer, a record at
  offset 0 of length 6 whose length field is at offset 0 and a 4-byte replacement, the buffer
  ends as \<open>4, 0, 0, 0, 0, 0, 7, 8\<close>: the new JPEG is not at the start offset.
\<close>

theorem overwriteEmbeddedJpg_field_in_jpg:
  "newEmbeddedJpg
     \<lparr>decodeDims = (\<lambda>b. Some \<lparr>columns = 2, rows = 2\<rparr>), encodeJpg = (\<lambda>(u::unit) d q. []),
      placeholderJpg = (\<lambda>d s. [0xFF, 0xD8, 0xFF, 0xD9])\<rparr>
     None \<lparr>columns = 2, rows = 2\<rparr>
     \<lparr>exifName = ''Thumbnail'', jpgStart = 0, jpgLength = 6, offsetToLengthField = 0\<rparr>
   = Some [0xFF, 0xD8, 0xFF, 0xD9]
   \<and> overwriteEmbeddedJpg
       \<lparr>exifName = ''Thumbnail'', jpgStart = 0, jpgLength = 6, offsetToLengthField = 0\<rparr>
       [0xFF, 0xD8, 0xFF, 0xD9] [1, 2, 3, 4, 5, 6, 7, 8]
     = Inr [4, 0, 0, 0, 0, 0, 7, 8]"
proof -
  let ?e = "\<lparr>exifName = ''Thumbnail'', jpgStart = 0, jpgLength = 6, offsetToLengthField = 0\<rparr>"
  have z: "replicate 2 (0::byte) = [0, 0]" by (simp add: numeral_2_eq_2)
  have w: "jpg_written ?e [0xFF, 0xD8, 0xFF, 0xD9] [1, 2, 3, 4, 5, 6, 7, 8]
             = [0xFF, 0xD8, 0xFF, 0xD9, 0, 0, 7, 8]"
    by (simp add: jpg_written_def slice_assign_def Let_def z)
  have p: "struct_pack_le32 (length [0xFF, 0xD8, 0xFF, 0xD9 :: byte]) = Inr [4, 0, 0, 0]"
    by (simp add: struct_pack_le32_def)
  have o: "overwriteEmbeddedJpg ?e [0xFF, 0xD8, 0xFF, 0xD9] [1, 2, 3, 4, 5, 6, 7, 8]
             = Inr [4, 0, 0, 0, 0, 0, 7, 8]"
    unfolding overwriteEmbeddedJpg_eq w p by (simp add: slice_assign_def Let_def)
  have n: "newEmbeddedJpg
     \<lparr>decodeDims = (\<lambda>b. Some \<lparr>columns = 2, rows = 2\<rparr>), encodeJpg = (\<lambda>(u::unit) d q. []),
      placeholderJpg = (\<lambda>d s. [0xFF, 0xD8, 0xFF, 0xD9])\<rparr>
     None \<lparr>columns = 2, rows = 2\<rparr> ?e = Some [0xFF, 0xD8, 0xFF, 0xD9]"
    by (simp add: newEmbeddedJpg_def generatePlaceholderEmbeddedJpg_def Let_def)
  show ?thesis using n o by simp
qed

text \<open>
  Claim C7, amended: for a record whose JPEG range \<open>[start, start + length)\<close> and
  length field \<open>[offsetToLengthField, + 4)\<close> lie inside the buffer and do not overlap, and
  whose length is below \<open>2 ^ 32\<close>: a replacement that is produced is no longer than the
  original length; after the overwrite the buffer has its old length, holds the new bytes at
  the start offset, zeros from there to the original end, and the new length in the length
  field, little-endian.
\<close>

theorem overwriteEmbeddedJpg_in_range:
  assumes produced: "newEmbeddedJpg tools image8 dimensions e = Some jpg"
    and region: "jpgStart e + jpgLength e \<le> length buf"
    and field: "offsetToLengthField e + 4 \<le> length buf"
    and apart: "offsetToLengthField e + 4 \<le> jpgStart e \<or> jpgStart e + jpgLength e \<le> offsetToLengthField e"
    and size: "jpgLength e < 2 ^ 32"
  shows "length jpg \<le> jpgLength e \<and>
         (\<exists>buf'. overwriteEmbeddedJpg e jpg buf = Inr buf' \<and> length buf' = length buf
            \<and> (\<forall>i < length jpg. buf' ! (jpgStart e + i) = jpg ! i)
            \<and> (\<forall>i. length jpg \<le> i \<and> i < jpgLength e \<longrightarrow> buf' ! (jpgStart e + i) = 0)
            \<and> read_le32 buf' (offsetToLengthField e) = length jpg)"
proof -
  define off where "off = offsetToLengthField e"
  define w where "w = jpg_written e jpg buf"
  have fits: "length jpg \<le> jpgLength e" using produced by (rule newEmbeddedJpg_fits)
  then have "length jpg < 2 ^ 32" using size by simp
  then obtain packed where packed: "struct_pack_le32 (length jpg) = Inr packed"
    using struct_pack_le32_ok by blast
  have p4: "length packed = 4" using struct_pack_le32_length [OF packed] .
  have lw: "length w = length buf" unfolding w_def by (rule jpg_written_in_range(1) [OF region fits])
  have res: "overwriteEmbeddedJpg e jpg buf = Inr (slice_assign off (off + 4) packed w)"
    by (simp add: overwriteEmbeddedJpg_eq packed off_def w_def)
  have fit: "off + length packed \<le> length w" using field by (simp add: p4 lw off_def)
  have len: "length (slice_assign off (off + 4) packed w) = length buf"
    using length_slice_assign [OF fit] by (simp add: p4 lw)
  have keep: "slice_assign off (off + 4) packed w ! (jpgStart e + i) = w ! (jpgStart e + i)"
    if "i < jpgLength e" for i
  proof -
    have "slice_assign off (off + length packed) packed w ! (jpgStart e + i) = w ! (jpgStart e + i)"
      using that region apart by (intro nth_slice_assign_outside) (auto simp add: lw p4 off_def)
    then show ?thesis by (simp add: p4)
  qed
  have a: "slice_assign off (off + 4) packed w ! (jpgStart e + i) = jpg ! i" if "i < length jpg" for i
    using keep [of i] that fits jpg_written_in_range(2) [OF region fits that] by (simp add: w_def)
  have b: "slice_assign off (off + 4) packed w ! (jpgStart e + i) = 0"
    if "length jpg \<le> i" "i < jpgLength e" for i
    using keep [OF that(2)] jpg_written_in_range(3) [OF region fits that] by (simp add: w_def)
  have c: "read_le32 (slice_assign off (off + 4) packed w) off = length jpg"
    using read_le32_slice_assign [OF packed] fit by (simp add: p4)
  show ?thesis using fits res len a b c by (auto simp add: off_def)
qed

theorem overwriteEmbeddedJpg_in_range_witness:
  "newEmbeddedJpg
     \<lparr>decodeDims = (\<lambda>b. Some \<lparr>columns = 1920, rows = 1280\<rparr>),
      encodeJpg = (\<lambda>(u::unit) d q. replicate (if q \<le> 80 then 180000 else 400000) 0xFF),
      placeholderJpg = (\<lambda>d s. [])\<rparr>
     (Some ()) \<lparr>columns = 1920, rows = 1280\<rparr>
     \<lparr>exifName = ''PreviewImage'', jpgStart = 1000, jpgLength = 262144, offsetToLengthField = 500\<rparr>
   = Some (replicate 180000 0xFF)
   \<and> (1000::nat) + 262144 \<le> length (replicate 300000 (0xAB::byte))
   \<and> (500::nat) + 4 \<le> length (replicate 300000 (0xAB::byte))
   \<and> (500::nat) + 4 \<le> 1000
   \<and> (262144::nat) < 2 ^ 32
   \<and> (\<exists>buf'. overwriteEmbeddedJpg
          \<lparr>exifName = ''PreviewImage'', jpgStart = 1000, jpgLength = 262144,
             offsetToLengthField = 500\<rparr>
          (replicate 180000 0xFF) (replicate 300000 0xAB) = Inr buf'
        \<and> length buf' = 300000
        \<and> (\<forall>i < 180000. buf' ! (1000 + i) = 0xFF)
        \<and> (\<forall>i. 180000 \<le> i \<and> i < 262144 \<longrightarrow> buf' ! (1000 + i) = 0)
        \<and> read_le32 buf' 500 = 180000)"
proof -
  let ?save = "\<lambda>q::nat. replicate (if q \<le> 80 then 180000 else 400000) (0xFF::byte)"
  let ?tools = "\<lparr>decodeDims = (\<lambda>b. Some \<lparr>columns = 1920, rows = 1280\<rparr>),
      encodeJpg = (\<lambda>(u::unit) d. ?save), placeholderJpg = (\<lambda>d s. [])\<rparr>"
  let ?e = "\<lparr>exifName = ''PreviewImage'', jpgStart = 1000, jpgLength = 262144,
             offsetToLengthField = 500\<rparr>"
  have q80: "generateEmbeddedJpg_loop ?save 262144 80 = Some (replicate 180000 0xFF)"
    by (subst generateEmbeddedJpg_loop.simps) (simp add: Let_def)
  have q90: "generateEmbeddedJpg_loop ?save 262144 90 = generateEmbeddedJpg_loop ?save 262144 80"
    by (subst generateEmbeddedJpg_loop.simps) (simp add: Let_def)
  have q100: "generateEmbeddedJpg_loop ?save 262144 100 = generateEmbeddedJpg_loop ?save 262144 90"
    by (subst generateEmbeddedJpg_loop.simps) (simp add: Let_def)
  have produced: "newEmbeddedJpg ?tools (Some ()) \<lparr>columns = 1920, rows = 1280\<rparr> ?e
                    = Some (replicate 180000 0xFF)"
    by (simp add: newEmbeddedJpg_def generateEmbeddedJpg_def q100 q90 q80)
  have r: "jpgStart ?e + jpgLength ?e \<le> length (replicate 300000 (0xAB::byte))" by simp
  have f: "offsetToLengthField ?e + 4 \<le> length (replicate 300000 (0xAB::byte))" by simp
  have a: "offsetToLengthField ?e + 4 \<le> jpgStart ?e \<or> jpgStart ?e + jpgLength ?e \<le> offsetToLengthField ?e"
    by simp
  have s: "jpgLength ?e < 2 ^ 32" by simp
  from overwriteEmbeddedJpg_in_range [OF produced r f a s]
  show ?thesis using produced by simp
qed

text \<open>
  Claim C9 (frame of the preview insertion). The claim: \<open>generateAndInsertEmbeddedJpgs\<close>
  changes only the bytes in \<open>[start, start + length)\<close> and the four bytes at the
  length-field offset of each record it rewrites. The three writes are slice assignments,
  which are clipped to the buffer and make it grow, and no offset of a record is checked
  against its length. For a record with start 6, length 6 and length field at 20, a buffer
  of 8 bytes and a replacement of 4 bytes, the buffer ends with 16 bytes: the replacement at
  6 to 9, the zero fill at 10 and 11, and the new length at 12 to 15, which is in neither
  range of the record.
\<close>

theorem generateAndInsertEmbeddedJpgs_grows_buffer:
  "generateAndInsertEmbeddedJpgs
       \<lparr>decodeDims = (\<lambda>b. Some \<lparr>columns = 2, rows = 2\<rparr>), encodeJpg = (\<lambda>(u::unit) d q. []),
        placeholderJpg = (\<lambda>d s. [0xFF, 0xD8, 0xFF, 0xD9])\<rparr>
       None
       [\<lparr>exifName = ''PreviewImage'', jpgStart = 6, jpgLength = 6, offsetToLengthField = 20\<rparr>]
       [0, 1, 2, 3, 4, 5, 6, 7]
     = Inr (False, [0, 1, 2, 3, 4, 5, 0xFF, 0xD8, 0xFF, 0xD9, 0, 0, 4, 0, 0, 0],
            [\<lparr>exifName = ''PreviewImage'', jpgStart = 6, jpgLength = 6, offsetToLengthField = 20\<rparr>])
   \<and> untouched \<lparr>exifName = ''PreviewImage'', jpgStart = 6, jpgLength = 6, offsetToLengthField = 20\<rparr> 12
   \<and> untouched \<lparr>exifName = ''PreviewImage'', jpgStart = 6, jpgLength = 6, offsetToLengthField = 20\<rparr> 15"
proof -
  let ?tools = "\<lparr>decodeDims = (\<lambda>b. Some \<lparr>columns = 2, rows = 2\<rparr>), encodeJpg = (\<lambda>(u::unit) d q. []),
        placeholderJpg = (\<lambda>d s. [0xFF, 0xD8, 0xFF, 0xD9 :: byte])\<rparr>"
  let ?e = "\<lparr>exifName = ''PreviewImage'', jpgStart = 6, jpgLength = 6, offsetToLengthField = 20\<rparr>"
  let ?buf = "[0, 1, 2, 3, 4, 5, 6, 7 :: byte]"
  have z: "replicate 2 (0::byte) = [0, 0]" by (simp add: numeral_2_eq_2)
  have n: "newEmbeddedJpg ?tools None \<lparr>columns = 2, rows = 2\<rparr> ?e = Some [0xFF, 0xD8, 0xFF, 0xD9]"
    by (simp add: newEmbeddedJpg_def generatePlaceholderEmbeddedJpg_def Let_def)
  have w: "jpg_written ?e [0xFF, 0xD8, 0xFF, 0xD9] ?buf
             = [0, 1, 2, 3, 4, 5, 0xFF, 0xD8, 0xFF, 0xD9, 0, 0]"
    by (simp add: jpg_written_def slice_assign_def Let_def z)
  have p: "struct_pack_le32 (length [0xFF, 0xD8, 0xFF, 0xD9 :: byte]) = Inr [4, 0, 0, 0]"
    by (simp add: struct_pack_le32_def)
  have o: "overwriteEmbeddedJpg ?e [0xFF, 0xD8, 0xFF, 0xD9] ?buf
             = Inr [0, 1, 2, 3, 4, 5, 0xFF, 0xD8, 0xFF, 0xD9, 0, 0, 4, 0, 0, 0]"
    unfolding overwriteEmbeddedJpg_eq w p by (simp add: slice_assign_def Let_def)
  have "generateAndInsertEmbeddedJpgs ?tools None [?e] ?buf
     = Inr (False, [0, 1, 2, 3, 4, 5, 0xFF, 0xD8, 0xFF, 0xD9, 0, 0, 4, 0, 0, 0], [?e])"
    by (simp add: n o)
  then show ?thesis by (simp add: untouched_def)
qed

text \<open>
  Claim C9, amended: \<open>generateAndInsertEmbeddedJpgs\<close> raises nothing when every record's
  length is below \<open>2 ^ 32\<close>. Whenever it returns, the records it overwrote are records of
  the donor, the buffer is not shorter than before, and every byte of the buffer at an index
  outside the JPEG range \<open>[start, start + length)\<close> and outside the length field of every
  overwritten record is what it was. When these ranges all end inside the buffer its length
  is unchanged, so the strip appended behind them is left as it was; otherwise the buffer
  can grow.
\<close>

theorem generateAndInsertEmbeddedJpgs_frame:
  "((\<forall>e \<in> set recs. jpgLength e < 2 ^ 32) \<longrightarrow>
      (\<exists>r. generateAndInsertEmbeddedJpgs tools image8 recs buf = Inr r))
   \<and> (\<forall>fError out done.
        generateAndInsertEmbeddedJpgs tools image8 recs buf = Inr (fError, out, done) \<longrightarrow>
          set done \<subseteq> set recs \<and> length buf \<le> length out
        \<and> (\<forall>i < length buf. (\<forall>e \<in> set done. untouched e i) \<longrightarrow> out ! i = buf ! i)
        \<and> ((\<forall>e \<in> set done. inside e (length buf)) \<longrightarrow> length out = length buf))"
  using generateAndInsertEmbeddedJpgs_returns [of recs tools image8 buf]
    generateAndInsertEmbeddedJpgs_frame_aux [of tools image8 recs buf]
  by blast

theorem generateAndInsertEmbeddedJpgs_frame_witness:
  "jpgLength \<lparr>exifName = ''PreviewImage'', jpgStart = 2, jpgLength = 6, offsetToLengthField = 10\<rparr>
     < 2 ^ 32
   \<and> generateAndInsertEmbeddedJpgs
       \<lparr>decodeDims = (\<lambda>b. Some \<lparr>columns = 2, rows = 2\<rparr>), encodeJpg = (\<lambda>(u::unit) d q. []),
        placeholderJpg = (\<lambda>d s. [0xFF, 0xD8, 0xFF, 0xD9])\<rparr>
       None
       [\<lparr>exifName = ''PreviewImage'', jpgStart = 2, jpgLength = 6, offsetToLengthField = 10\<rparr>]
       [0, 1, 2, 3, 4, 5, 6, 7, 8, 9, 10, 11, 12, 13, 14, 15]
     = Inr (False, [0, 1, 0xFF, 0xD8, 0xFF, 0xD9, 0, 0, 8, 9, 4, 0, 0, 0, 14, 15],
            [\<lparr>exifName = ''PreviewImage'', jpgStart = 2, jpgLength = 6, offsetToLengthField = 10\<rparr>])
   \<and> untouched \<lparr>exifName = ''PreviewImage'', jpgStart = 2, jpgLength = 6, offsetToLengthField = 10\<rparr> 9
   \<and> [0, 1, 0xFF, 0xD8, 0xFF, 0xD9, 0, 0, 8, 9, 4, 0, 0, 0, 14, 15 :: byte] ! 9
        = [0, 1, 2, 3, 4, 5, 6, 7, 8, 9, 10, 11, 12, 13, 14, 15] ! 9
   \<and> inside \<lparr>exifName = ''PreviewImage'', jpgStart = 2, jpgLength = 6, offsetToLengthField = 10\<rparr>
        (length [0, 1, 2, 3, 4, 5, 6, 7, 8, 9, 10, 11, 12, 13, 14, 15 :: byte])
   \<and> length [0, 1, 0xFF, 0xD8, 0xFF, 0xD9, 0, 0, 8, 9, 4, 0, 0, 0, 14, 15 :: byte]
        = length [0, 1, 2, 3, 4, 5, 6, 7, 8, 9, 10, 11, 12, 13, 14, 15 :: byte]"
proof -
  let ?tools = "\<lparr>decodeDims = (\<lambda>b. Some \<lparr>columns = 2, rows = 2\<rparr>), encodeJpg = (\<lambda>(u::unit) d q. []),
        placeholderJpg = (\<lambda>d s. [0xFF, 0xD8, 0xFF, 0xD9 :: byte])\<rparr>"
  let ?e = "\<lparr>exifName = ''PreviewImage'', jpgStart = 2, jpgLength = 6, offsetToLengthField = 10\<rparr>"
  let ?buf = "[0, 1, 2, 3, 4, 5, 6, 7, 8, 9, 10, 11, 12, 13, 14, 15 :: byte]"
  have z: "replicate 2 (0::byte) = [0, 0]" by (simp add: numeral_2_eq_2)
  have n: "newEmbeddedJpg ?tools None \<lparr>columns = 2, rows = 2\<rparr> ?e = Some [0xFF, 0xD8, 0xFF, 0xD9]"
    by (simp add: newEmbeddedJpg_def generatePlaceholderEmbeddedJpg_def Let_def)
  have w: "jpg_written ?e [0xFF, 0xD8, 0xFF, 0xD9] ?buf
             = [0, 1, 0xFF, 0xD8, 0xFF, 0xD9, 0, 0, 8, 9, 10, 11, 12, 13, 14, 15]"
    by (simp add: jpg_written_def slice_assign_def Let_def z)
  have p: "struct_pack_le32 (length [0xFF, 0xD8, 0xFF, 0xD9 :: byte]) = Inr [4, 0, 0, 0]"
    by (simp add: struct_pack_le32_def)
  have o: "overwriteEmbeddedJpg ?e [0xFF, 0xD8, 0xFF, 0xD9] ?buf
             = Inr [0, 1, 0xFF, 0xD8, 0xFF, 0xD9, 0, 0, 8, 9, 4, 0, 0, 0, 14, 15]"
    unfolding overwriteEmbeddedJpg_eq w p by (simp add: slice_assign_def Let_def)
  have run: "generateAndInsertEmbeddedJpgs ?tools None [?e] ?buf
     = Inr (False, [0, 1, 0xFF, 0xD8, 0xFF, 0xD9, 0, 0, 8, 9, 4, 0, 0, 0, 14, 15], [?e])"
    by (simp add: n o)
  from generateAndInsertEmbeddedJpgs_frame [of "[?e]" ?tools None ?buf]
  show ?thesis using run by (simp add: untouched_def inside_def)
qed

section \<open>Properties of the numpy sources\<close>

text \<open>
  Claim C2 (pre-Bayer plane and the black level). The claim: for an accepted
  \<open>(rows, cols)\<close> input, every Bayer-plane sample at a site covered by the input is the
  input value plus \<open>blackLevel\<close>. The code fills the plane with \<open>blackLevel\<close> and
  then copies the input samples into it as they are; no bias is added to them (the
  validation warns about samples below \<open>blackLevel\<close>: the input is expected to carry the
  bias already). For the accepted \<open>2 \<times> 2\<close> input \<open>5, 1, 2, 3\<close> of the size of the raw
  frame and \<open>blackLevel = 1008\<close> the plane is \<open>5, 1, 2, 3\<close>, not
  \<open>1013, 1009, 1010, 1011\<close>.
\<close>

theorem placeBayer2D_adds_no_black_level:
  "validateBayeredNpyData
     \<lparr>rawDimensions = \<lparr>columns = 2, rows = 2\<rparr>, stripOffset = 8, fileOffsetToStripByteCount = 4,
      wbMultipliers = \<lparr>red = 2, blue = 3 / 2\<rparr>, blackLevel = 1008, embeddedJpgs = []\<rparr>
     (elems2 (array2_of [[5, 1], [2, 3]])) = Inr (False, [PrintW ''has pixels < blackLevel''])
   \<and> map_sum id rows_of
       (placeBayer2D
          \<lparr>rawDimensions = \<lparr>columns = 2, rows = 2\<rparr>, stripOffset = 8, fileOffsetToStripByteCount = 4,
           wbMultipliers = \<lparr>red = 2, blue = 3 / 2\<rparr>, blackLevel = 1008, embeddedJpgs = []\<rparr>
          \<lparr>re_horzalign = CENTER, re_vertalign = CENTER, src_srgbtolinear = True,
           src_wbmultipliers = None, src_grayscale = False\<rparr>
          (array2_of [[5, 1], [2, 3]]))
     = Inr [[5, 1], [2, 3]]"
proof -
  let ?exif = "\<lparr>rawDimensions = \<lparr>columns = 2, rows = 2\<rparr>, stripOffset = 8, fileOffsetToStripByteCount = 4,
      wbMultipliers = \<lparr>red = 2, blue = 3 / 2\<rparr>, blackLevel = 1008, embeddedJpgs = []\<rparr>"
  let ?args = "\<lparr>re_horzalign = CENTER, re_vertalign = CENTER, src_srgbtolinear = True,
           src_wbmultipliers = None, src_grayscale = False\<rparr>"
  let ?input = "array2_of [[5, 1], [2, 3 :: u16]]"
  have v: "validateBayeredNpyData ?exif (elems2 ?input) = Inr (False, [PrintW ''has pixels < blackLevel''])"
    by (simp add: elems2_2x2 validateBayeredNpyData_def)
  obtain plane where p: "placeBayer2D ?exif ?args ?input = Inr plane"
    and shape: "nrows plane = 2" "ncols plane = 2"
    and sites: "\<And>r c. at2 plane r c = (if r < 2 \<and> c < 2 then at2 ?input r c else 1008)"
    using placeBayer2D_fits [of ?exif ?input ?args] by (auto simp add: array2_of_2x2)
  have "rows_of plane = [[5, 1], [2, 3]]"
    by (simp add: rows_of_2x2 [OF shape] sites array2_of_2x2)
  then show ?thesis using v p by simp
qed

text \<open>
  Claim C2, amended: for a \<open>(rows, cols)\<close> input that is not empty and has all values
  below 16384, every sample of a plane that \<open>processSourceNumpy\<close> returns is
  \<open>blackLevel\<close> or a sample of the input, unchanged. When the input is no larger than the
  raw frame on either axis (dimensions below \<open>2 ^ 53\<close>, \<open>blackLevel\<close> below
  \<open>2 ^ 16\<close>) a plane of the raw dimensions is returned: the site at offset \<open>(r, c)\<close>
  from the position that \<open>calcAxisPos\<close> gives holds the input value at \<open>(r, c)\<close>,
  and every site the input does not cover holds \<open>blackLevel\<close>.
\<close>

theorem processSourceNumpy_2D_copies_samples:
  assumes nonempty: "0 < nrows input" "0 < ncols input"
    and accepted: "list_all (\<lambda>v. unat v < 2 ^ 14) (elems2 input)"
  shows "(\<forall>msgs img plane.
            processSourceNumpy exif args processSourceImageData (Some (U16_2D input))
              = Inr (msgs, img, Some plane) \<longrightarrow>
            img = None \<and> nrows plane = nat (rows (rawDimensions exif))
          \<and> ncols plane = nat (columns (rawDimensions exif))
          \<and> (\<forall>r c. at2 plane r c = of_nat (blackLevel exif) \<or> at2 plane r c \<in> set (elems2 input)))
       \<and> (blackLevel exif < 2 ^ 16
            \<and> int (ncols input) \<le> columns (rawDimensions exif)
            \<and> int (nrows input) \<le> rows (rawDimensions exif)
            \<and> columns (rawDimensions exif) < 2 ^ 53 \<and> rows (rawDimensions exif) < 2 ^ 53 \<longrightarrow>
          (\<exists>msgs plane.
              processSourceNumpy exif args processSourceImageData (Some (U16_2D input))
                = Inr (msgs, None, Some plane)
            \<and> nrows plane = nat (rows (rawDimensions exif))
            \<and> ncols plane = nat (columns (rawDimensions exif))
            \<and> (\<forall>r c. at2 plane r c =
                 (if nat (calcAxisPos (int (nrows input)) (rows (rawDimensions exif)) (re_vertalign args)) \<le> r
                     \<and> r < nat (calcAxisPos (int (nrows input)) (rows (rawDimensions exif))
                                  (re_vertalign args)) + nrows input
                     \<and> nat (calcAxisPos (int (ncols input)) (columns (rawDimensions exif))
                              (re_horzalign args)) \<le> c
                     \<and> c < nat (calcAxisPos (int (ncols input)) (columns (rawDimensions exif))
                                  (re_horzalign args)) + ncols input
                  then at2 input
                         (r - nat (calcAxisPos (int (nrows input)) (rows (rawDimensions exif))
                                     (re_vertalign args)))
                         (c - nat (calcAxisPos (int (ncols input)) (columns (rawDimensions exif))
                                     (re_horzalign args)))
                  else of_nat (blackLevel exif)))))"
proof -
  have "at2 input 0 0 \<in> set (elems2 input)" using nonempty by (intro elems2_mem)
  then have ne: "elems2 input \<noteq> []" by auto
  have small: "\<forall>v \<in> set (elems2 input). unat v < 2 ^ 14"
    using accepted by (simp add: list_all_iff)
  obtain msgs0 where val: "validateBayeredNpyData exif (elems2 input) = Inr (False, msgs0)"
    using validateBayeredNpyData_ok [OF ne small] by blast
  have res: "processSourceNumpy exif args processSourceImageData (Some (U16_2D input))
               = (case placeBayer2D exif args input of
                    Inl e \<Rightarrow> Inl e
                  | Inr bayeredImage \<Rightarrow> Inr (msgs0, None, Some bayeredImage))"
    by (simp add: processSourceNumpy_def val)
  have a: "img = None \<and> nrows plane = nat (rows (rawDimensions exif))
          \<and> ncols plane = nat (columns (rawDimensions exif))
          \<and> (\<forall>r c. at2 plane r c = of_nat (blackLevel exif) \<or> at2 plane r c \<in> set (elems2 input))"
    if "processSourceNumpy exif args processSourceImageData (Some (U16_2D input))
          = Inr (msgs, img, Some plane)" for msgs img plane
  proof -
    have "placeBayer2D exif args input = Inr plane" "img = None"
      using that unfolding res by (auto split: sum.splits)
    then show ?thesis using placeBayer2D_samples [of exif args input plane] by simp
  qed
  have b: "\<exists>msgs plane.
              processSourceNumpy exif args processSourceImageData (Some (U16_2D input))
                = Inr (msgs, None, Some plane)
            \<and> nrows plane = nat (rows (rawDimensions exif))
            \<and> ncols plane = nat (columns (rawDimensions exif))
            \<and> (\<forall>r c. at2 plane r c =
                 (if nat (calcAxisPos (int (nrows input)) (rows (rawDimensions exif)) (re_vertalign args)) \<le> r
                     \<and> r < nat (calcAxisPos (int (nrows input)) (rows (rawDimensions exif))
                                  (re_vertalign args)) + nrows input
                     \<and> nat (calcAxisPos (int (ncols input)) (columns (rawDimensions exif))
                              (re_horzalign args)) \<le> c
                     \<and> c < nat (calcAxisPos (int (ncols input)) (columns (rawDimensions exif))
                                  (re_horzalign args)) + ncols input
                  then at2 input
                         (r - nat (calcAxisPos (int (nrows input)) (rows (rawDimensions exif))
                                     (re_vertalign args)))
                         (c - nat (calcAxisPos (int (ncols input)) (columns (rawDimensions exif))
                                     (re_horzalign args)))
                  else of_nat (blackLevel exif)))"
    if "blackLevel exif < 2 ^ 16" "int (ncols input) \<le> columns (rawDimensions exif)"
       "int (nrows input) \<le> rows (rawDimensions exif)"
       "columns (rawDimensions exif) < 2 ^ 53" "rows (rawDimensions exif) < 2 ^ 53"
  proof -
    from placeBayer2D_fits [of exif input args] that
    obtain plane where p: "placeBayer2D exif args input = Inr plane"
      and rest: "nrows plane = nat (rows (rawDimensions exif))"
        "ncols plane = nat (columns (rawDimensions exif))"
        "\<forall>r c. at2 plane r c =
                 (if nat (calcAxisPos (int (nrows input)) (rows (rawDimensions exif)) (re_vertalign args)) \<le> r
                     \<and> r < nat (calcAxisPos (int (nrows input)) (rows (rawDimensions exif))
                                  (re_vertalign args)) + nrows input
                     \<and> nat (calcAxisPos (int (ncols input)) (columns (rawDimensions exif))
                              (re_horzalign args)) \<le> c
                     \<and> c < nat (calcAxisPos (int (ncols input)) (columns (rawDimensions exif))
                                  (re_horzalign args)) + ncols input
                  then at2 input
                         (r - nat (calcAxisPos (int (nrows input)) (rows (rawDimensions exif))
                                     (re_vertalign args)))
                         (c - nat (calcAxisPos (int (ncols input)) (columns (rawDimensions exif))
                                     (re_horzalign args)))
                  else of_nat (blackLevel exif))"
      by blast
    have "processSourceNumpy exif args processSourceImageData (Some (U16_2D input))
            = Inr (msgs0, None, Some plane)"
      by (simp add: res p)
    then show ?thesis using rest by blast
  qed
  show ?thesis using a b by blast
qed

theorem processSourceNumpy_2D_copies_samples_witness:
  "list_all (\<lambda>v. unat v < 2 ^ 14) (elems2 (array2_of [[5, 1], [2, 3 :: u16]]))
   \<and> (\<exists>msgs plane.
        processSourceNumpy
          \<lparr>rawDimensions = \<lparr>columns = 4, rows = 4\<rparr>, stripOffset = 8, fileOffsetToStripByteCount = 4,
           wbMultipliers = \<lparr>red = 2, blue = 3 / 2\<rparr>, blackLevel = 1008, embeddedJpgs = []\<rparr>
          \<lparr>re_horzalign = CENTER, re_vertalign = CENTER, src_srgbtolinear = True,
           src_wbmultipliers = None, src_grayscale = False\<rparr>
          (\<lambda>a. Inl ValueError) (Some (U16_2D (array2_of [[5, 1], [2, 3]])))
          = Inr (msgs, None :: unit option, Some plane)
      \<and> nrows plane = 4 \<and> ncols plane = 4
      \<and> at2 plane 0 0 = 1008 \<and> at2 plane 1 1 = 5 \<and> at2 plane 1 2 = 1
      \<and> at2 plane 2 1 = 2 \<and> at2 plane 2 2 = 3 \<and> at2 plane 3 3 = 1008)"
proof -
  let ?exif = "\<lparr>rawDimensions = \<lparr>columns = 4, rows = 4\<rparr>, stripOffset = 8, fileOffsetToStripByteCount = 4,
           wbMultipliers = \<lparr>red = 2, blue = 3 / 2\<rparr>, blackLevel = 1008, embeddedJpgs = []\<rparr>"
  let ?args = "\<lparr>re_horzalign = CENTER, re_vertalign = CENTER, src_srgbtolinear = True,
           src_wbmultipliers = None, src_grayscale = False\<rparr>"
  let ?input = "array2_of [[5, 1], [2, 3 :: u16]]"
  have acc: "list_all (\<lambda>v. unat v < 2 ^ 14) (elems2 ?input)" by (simp add: elems2_2x2)
  have pos: "calcAxisPos 2 4 CENTER = 1" using calcAxisPos_center [of 2 4] by simp
  have ne: "0 < nrows ?input" "0 < ncols ?input" by (simp_all add: array2_of_2x2)
  note t = processSourceNumpy_2D_copies_samples [of ?input ?exif ?args "\<lambda>a. Inl ValueError", OF ne acc,
      THEN conjunct2]
  have hyp: "blackLevel ?exif < 2 ^ 16
            \<and> int (ncols ?input) \<le> columns (rawDimensions ?exif)
            \<and> int (nrows ?input) \<le> rows (rawDimensions ?exif)
            \<and> columns (rawDimensions ?exif) < 2 ^ 53 \<and> rows (rawDimensions ?exif) < 2 ^ 53"
    by (simp add: array2_of_2x2)
  from t hyp obtain msgs plane where
      p: "processSourceNumpy ?exif ?args (\<lambda>a. Inl ValueError) (Some (U16_2D ?input))
         = Inr (msgs, None :: unit option, Some plane)"
      and shape0: "nrows plane = nat (rows (rawDimensions ?exif))"
         "ncols plane = nat (columns (rawDimensions ?exif))"
      and sites0: "\<forall>r c. at2 plane r c =
                 (if nat (calcAxisPos (int (nrows ?input)) (rows (rawDimensions ?exif)) (re_vertalign ?args)) \<le> r
                     \<and> r < nat (calcAxisPos (int (nrows ?input)) (rows (rawDimensions ?exif))
                                  (re_vertalign ?args)) + nrows ?input
                     \<and> nat (calcAxisPos (int (ncols ?input)) (columns (rawDimensions ?exif))
                              (re_horzalign ?args)) \<le> c
                     \<and> c < nat (calcAxisPos (int (ncols ?input)) (columns (rawDimensions ?exif))
                                  (re_horzalign ?args)) + ncols ?input
                  then at2 ?input
                         (r - nat (calcAxisPos (int (nrows ?input)) (rows (rawDimensions ?exif))
                                     (re_vertalign ?args)))
                         (c - nat (calcAxisPos (int (ncols ?input)) (columns (rawDimensions ?exif))
                                     (re_horzalign ?args)))
                  else of_nat (blackLevel ?exif))"
    by blast
  have shape: "nrows plane = 4" "ncols plane = 4" using shape0 by simp_all
  have s00: "at2 plane 0 0 = 1008"
    using sites0 [rule_format, of 0 0] by (simp add: array2_of_2x2 pos del: calcAxisPos.simps)
  have s11: "at2 plane 1 1 = 5"
    using sites0 [rule_format, of 1 1] by (simp add: array2_of_2x2 pos del: calcAxisPos.simps)
  have s12: "at2 plane 1 2 = 1"
    using sites0 [rule_format, of 1 2] by (simp add: array2_of_2x2 pos del: calcAxisPos.simps)
  have s21: "at2 plane 2 1 = 2"
    using sites0 [rule_format, of 2 1] by (simp add: array2_of_2x2 pos del: calcAxisPos.simps)
  have s22: "at2 plane 2 2 = 3"
    using sites0 [rule_format, of 2 2] by (simp add: array2_of_2x2 pos del: calcAxisPos.simps)
  have s33: "at2 plane 3 3 = 1008"
    using sites0 [rule_format, of 3 3] by (simp add: array2_of_2x2 pos del: calcAxisPos.simps)
  show ?thesis using acc p shape s00 s11 s12 s21 s22 s33 by blast
qed

text \<open>
  Claim C8 (samples of \<open>2 ^ 14\<close> and more). For a \<open>(rows, cols)\<close> array, and for a
  \<open>(rows, cols, 4)\<close> array, that holds a sample of 16384 or more, \<open>processSourceNumpy\<close>
  prints the error and returns neither an image nor a Bayer plane, and \<open>run\<close> returns
  its error flag with no output file written, whatever the encoder is: it is not reached.
\<close>

theorem processSourceNumpy_rejects_large_samples:
  "(\<forall>a. (\<exists>r < nrows a. \<exists>c < ncols a. 2 ^ 14 \<le> unat (at2 a r c)) \<longrightarrow>
      processSourceNumpy exif args processSourceImageData (Some (U16_2D a))
        = Inr ([PrintE ''has pixels >= 2^14 - cannot encode''], None, None)
    \<and> run exif args processSourceImageData encode preview tools templateFile outputFilename
          writeFile openinviewer (Some (U16_2D a))
        = Inr ([PrintE ''has pixels >= 2^14 - cannot encode''], True, None))
   \<and> (\<forall>b. nchan b = 4
          \<and> (\<exists>r < nrows3 b. \<exists>c < ncols3 b. \<exists>k < 4. 2 ^ 14 \<le> unat (at3 b r c k)) \<longrightarrow>
      processSourceNumpy exif args processSourceImageData (Some (U16_3D b))
        = Inr ([PrintE ''has pixels >= 2^14 - cannot encode''], None, None)
    \<and> run exif args processSourceImageData encode preview tools templateFile outputFilename
          writeFile openinviewer (Some (U16_3D b))
        = Inr ([PrintE ''has pixels >= 2^14 - cannot encode''], True, None))"
proof (intro conjI allI impI)
  fix a :: "u16 array2"
  assume "\<exists>r < nrows a. \<exists>c < ncols a. 2 ^ 14 \<le> unat (at2 a r c)"
  then obtain r c where "r < nrows a" "c < ncols a" "2 ^ 14 \<le> unat (at2 a r c)" by blast
  then have v: "validateBayeredNpyData exif (elems2 a)
                  = Inr (True, [PrintE ''has pixels >= 2^14 - cannot encode''])"
    by (intro validateBayeredNpyData_error [of "at2 a r c"] elems2_mem)
  show p: "processSourceNumpy exif args processSourceImageData (Some (U16_2D a))
        = Inr ([PrintE ''has pixels >= 2^14 - cannot encode''], None, None)"
    by (simp add: processSourceNumpy_def v)
  show "run exif args processSourceImageData encode preview tools templateFile outputFilename
          writeFile openinviewer (Some (U16_2D a))
        = Inr ([PrintE ''has pixels >= 2^14 - cannot encode''], True, None)"
    by (simp add: run_def p)
next
  fix b :: "u16 array3"
  assume h: "nchan b = 4 \<and> (\<exists>r < nrows3 b. \<exists>c < ncols3 b. \<exists>k < 4. 2 ^ 14 \<le> unat (at3 b r c k))"
  then obtain r c k where "r < nrows3 b" "c < ncols3 b" "k < nchan b" "2 ^ 14 \<le> unat (at3 b r c k)"
    by auto
  then have v: "validateBayeredNpyData exif (elems3 b)
                  = Inr (True, [PrintE ''has pixels >= 2^14 - cannot encode''])"
    by (intro validateBayeredNpyData_error [of "at3 b r c k"] elems3_mem)
  show p: "processSourceNumpy exif args processSourceImageData (Some (U16_3D b))
        = Inr ([PrintE ''has pixels >= 2^14 - cannot encode''], None, None)"
    using h by (simp add: processSourceNumpy_def v)
  show "run exif args processSourceImageData encode preview tools templateFile outputFilename
          writeFile openinviewer (Some (U16_3D b))
        = Inr ([PrintE ''has pixels >= 2^14 - cannot encode''], True, None)"
    by (simp add: run_def p)
qed

theorem processSourceNumpy_rejects_large_samples_witness:
  "(2::nat) ^ 14 \<le> unat (at2 (array2_of [[5, 1], [16384, 3 :: u16]]) 1 0)
   \<and> processSourceNumpy
       \<lparr>rawDimensions = \<lparr>columns = 2, rows = 2\<rparr>, stripOffset = 8, fileOffsetToStripByteCount = 4,
        wbMultipliers = \<lparr>red = 2, blue = 3 / 2\<rparr>, blackLevel = 1008, embeddedJpgs = []\<rparr>
       \<lparr>re_horzalign = CENTER, re_vertalign = CENTER, src_srgbtolinear = True,
        src_wbmultipliers = None, src_grayscale = False\<rparr>
       (\<lambda>a. Inl ValueError) (Some (U16_2D (array2_of [[5, 1], [16384, 3]])))
     = Inr ([PrintE ''has pixels >= 2^14 - cannot encode''], None :: unit option, None)
   \<and> run
       \<lparr>rawDimensions = \<lparr>columns = 2, rows = 2\<rparr>, stripOffset = 8, fileOffsetToStripByteCount = 4,
        wbMultipliers = \<lparr>red = 2, blue = 3 / 2\<rparr>, blackLevel = 1008, embeddedJpgs = []\<rparr>
       \<lparr>re_horzalign = CENTER, re_vertalign = CENTER, src_srgbtolinear = True,
        src_wbmultipliers = None, src_grayscale = False\<rparr>
       (\<lambda>a. Inl ValueError) (\<lambda>plane. Inr ([], Some [1, 2, 3]))
       (\<lambda>(i :: unit option). Inr ([], None :: unit option))
       \<lparr>decodeDims = (\<lambda>b. None), encodeJpg = (\<lambda>u d q. []), placeholderJpg = (\<lambda>d s. [])\<rparr>
       (Some [0, 0, 0, 0, 0, 0, 0, 0]) (Inr ([], Some ''out.nef'')) (\<lambda>name bytes. True) None
       (Some (U16_2D (array2_of [[5, 1], [16384, 3]])))
     = Inr ([PrintE ''has pixels >= 2^14 - cannot encode''], True, None)"
proof -
  let ?a = "array2_of [[5, 1], [16384, 3 :: u16]]"
  have big: "(2::nat) ^ 14 \<le> unat (at2 ?a 1 0)" by (simp add: array2_of_2x2)
  have "(1::nat) < nrows ?a \<and> (0::nat) < ncols ?a \<and> 2 ^ 14 \<le> unat (at2 ?a 1 0)"
    by (simp add: array2_of_2x2)
  then have ex: "\<exists>r < nrows ?a. \<exists>c < ncols ?a. 2 ^ 14 \<le> unat (at2 ?a r c)"
    by blast
  from processSourceNumpy_rejects_large_samples
    [THEN conjunct1, rule_format, OF ex]
  show ?thesis using big by blast
qed

text \<open>
  Claim C10 (samples below the black level). The claim: a pre-Bayer input whose smallest
  sample is below a positive \<open>blackLevel\<close> is accepted and encoded, with a warning only, and
  the low samples reach the encoder unmodified. The validation does only warn, but the
  placement that follows can raise: for a \<open>2 \<times> 7\<close> input of the sample \<open>5\<close>, a raw frame of
  4 columns and 2 rows, \<open>blackLevel = 1008\<close> and CENTER alignment, the crop of the columns
  is \<open>[2, 4)\<close>, the selection of the frame is 4 columns wide, and the assignment raises
  \<open>ValueError\<close>: nothing is encoded.
\<close>

theorem processSourceNumpy_warned_input_raises:
  "validateBayeredNpyData
     \<lparr>rawDimensions = \<lparr>columns = 4, rows = 2\<rparr>, stripOffset = 8, fileOffsetToStripByteCount = 4,
      wbMultipliers = \<lparr>red = 2, blue = 3 / 2\<rparr>, blackLevel = 1008, embeddedJpgs = []\<rparr>
     (elems2 \<lparr>nrows = 2, ncols = 7, at2 = (\<lambda>r c. 5)\<rparr>)
     = Inr (False, [PrintW ''has pixels < blackLevel''])
   \<and> processSourceNumpy
       \<lparr>rawDimensions = \<lparr>columns = 4, rows = 2\<rparr>, stripOffset = 8, fileOffsetToStripByteCount = 4,
        wbMultipliers = \<lparr>red = 2, blue = 3 / 2\<rparr>, blackLevel = 1008, embeddedJpgs = []\<rparr>
       \<lparr>re_horzalign = CENTER, re_vertalign = CENTER, src_srgbtolinear = True,
        src_wbmultipliers = None, src_grayscale = False\<rparr>
       (\<lambda>a. Inr ([], None :: unit option, None))
       (Some (U16_2D \<lparr>nrows = 2, ncols = 7, at2 = (\<lambda>r c. 5)\<rparr>))
     = Inl ValueError
   \<and> run
       \<lparr>rawDimensions = \<lparr>columns = 4, rows = 2\<rparr>, stripOffset = 8, fileOffsetToStripByteCount = 4,
        wbMultipliers = \<lparr>red = 2, blue = 3 / 2\<rparr>, blackLevel = 1008, embeddedJpgs = []\<rparr>
       \<lparr>re_horzalign = CENTER, re_vertalign = CENTER, src_srgbtolinear = True,
        src_wbmultipliers = None, src_grayscale = False\<rparr>
       (\<lambda>a. Inr ([], None :: unit option, None)) (\<lambda>plane. Inr ([], Some [1, 2, 3]))
       (\<lambda>img. Inr ([], None :: unit option))
       \<lparr>decodeDims = (\<lambda>b. None), encodeJpg = (\<lambda>u d q. []), placeholderJpg = (\<lambda>d s. [])\<rparr>
       (Some [0, 1, 2, 3, 4, 5, 6, 7]) (Inr ([], Some ''out.nef'')) (\<lambda>name bytes. True) None
       (Some (U16_2D \<lparr>nrows = 2, ncols = 7, at2 = (\<lambda>r c. 5)\<rparr>))
     = Inl ValueError"
proof -
  let ?exif = "\<lparr>rawDimensions = \<lparr>columns = 4, rows = 2\<rparr>, stripOffset = 8, fileOffsetToStripByteCount = 4,
        wbMultipliers = \<lparr>red = 2, blue = 3 / 2\<rparr>, blackLevel = 1008, embeddedJpgs = []\<rparr>"
  let ?args = "\<lparr>re_horzalign = CENTER, re_vertalign = CENTER, src_srgbtolinear = True,
        src_wbmultipliers = None, src_grayscale = False\<rparr>"
  let ?a = "\<lparr>nrows = 2, ncols = 7, at2 = (\<lambda>r c. 5 :: u16)\<rparr>"
  have mem: "5 \<in> set (elems2 ?a)" using elems2_mem [of 0 ?a 0] by simp
  have all: "v = 5" if "v \<in> set (elems2 ?a)" for v using that by (auto elim: elems2_cases)
  have ne: "elems2 ?a \<noteq> []" using mem by auto
  have "unat v < 2 ^ 14" if "v \<in> set (elems2 ?a)" for v using all [OF that] by simp
  then have sm: "list_all (\<lambda>v. unat v < 2 ^ 14) (elems2 ?a)" unfolding list_all_iff by blast
  have lo: "list_ex (\<lambda>v. unat v < blackLevel ?exif) (elems2 ?a)"
    unfolding list_ex_iff using mem by (intro bexI [of _ 5]) simp_all
  have v: "validateBayeredNpyData ?exif (elems2 ?a) = Inr (False, [PrintW ''has pixels < blackLevel''])"
    using validateBayeredNpyData_warning [OF ne sm _ lo] by simp
  have pl: "npyPlacement \<lparr>columns = 7, rows = 2\<rparr> ?exif ?args
              = Inr (\<lparr>coord_x = 0, coord_y = 0\<rparr>, \<lparr>startx = 2, starty = 0, endx = 4, endy = 2\<rparr>)"
    by code_simp
  have sr: "slice_range 0 2 1 2 = (0, 2)" "slice_range 2 4 1 7 = (2, 2)" "slice_range 0 4 1 4 = (0, 4)"
    by (simp_all add: slice_range_def clip_index_def Let_def)
  have p: "placeBayer2D ?exif ?args ?a = Inl ValueError"
    by (simp add: placeBayer2D_def pl np_full_def np_getitem2_def np_setitem2_def sr del: One_nat_def)
  have n: "processSourceNumpy ?exif ?args (\<lambda>a. Inr ([], None :: unit option, None)) (Some (U16_2D ?a))
             = Inl ValueError"
    by (simp add: processSourceNumpy_def v p)
  show ?thesis using v n by (simp add: run_def)
qed

text \<open>
  Claim C10, amended: \<open>validateBayeredNpyData\<close> returns its error flag exactly when a
  sample is 16384 or more; for data that is not empty, has all values below 16384 and a
  value below a positive \<open>blackLevel\<close> it prints the warning and returns no error. For such
  a \<open>(rows, cols)\<close> or \<open>(rows, cols, 4)\<close> input, every plane the placement yields is
  returned by \<open>processSourceNumpy\<close> with the warning, and \<open>run\<close> hands it to the encoder
  and goes on with what the encoder returns. When the input is no larger than the raw frame
  on either axis (dimensions below \<open>2 ^ 53\<close>, \<open>blackLevel\<close> below \<open>2 ^ 16\<close>) the
  placement yields a plane of the raw dimensions that holds every input sample, the low ones
  included, as it is, at the position that \<open>calcAxisPos\<close> gives, and the division by
  \<open>bytesUncompressed\<close> does not fail. An input larger than the raw frame can raise instead.
\<close>

theorem validateBayeredNpyData_warns_below_black_level:
  "(\<forall>data fError msgs. validateBayeredNpyData exif data = Inr (fError, msgs) \<longrightarrow>
      (fError \<longleftrightarrow> list_ex (\<lambda>v. 2 ^ 14 \<le> unat v) data))
   \<and> (let warned = (\<lambda>data. data \<noteq> [] \<and> list_all (\<lambda>v. unat v < 2 ^ 14) data
                        \<and> 0 < blackLevel exif \<and> list_ex (\<lambda>v. unat v < blackLevel exif) data);
          fits = (\<lambda>inputColumns inputRows.
                    inputColumns \<le> columns (rawDimensions exif) \<and> columns (rawDimensions exif) < 2 ^ 53
                  \<and> inputRows \<le> rows (rawDimensions exif) \<and> rows (rawDimensions exif) < 2 ^ 53
                  \<and> blackLevel exif < 2 ^ 16);
          warning = [PrintW ''has pixels < blackLevel''];
          bytesUncompressed =
            py_int (int_truediv (columns (rawDimensions exif) * rows (rawDimensions exif) * 14) 8);
          encoded = (\<lambda>plane.
            case encode plane of
              Inl e \<Rightarrow> Inl e
            | Inr (encoderMsgs, None) \<Rightarrow> Inr (warning @ encoderMsgs, True, None)
            | Inr (encoderMsgs, Some encodedImageData) \<Rightarrow>
                if bytesUncompressed = 0 then Inl ZeroDivisionError
                else
                  (case writeOutputNEF exif tools templateFile (preview None) outputFilename writeFile
                          openinviewer encodedImageData of
                     Inl e \<Rightarrow> Inl e
                   | Inr (writeMsgs, fWriteFailed, written) \<Rightarrow>
                       Inr (warning @ encoderMsgs @ writeMsgs
                              @ (if fWriteFailed then [PrintE ''Error generating/writing output NEF'']
                                 else []),
                            fWriteFailed, written)))
      in (\<forall>data. warned data \<longrightarrow> validateBayeredNpyData exif data = Inr (False, warning))
       \<and> (\<forall>a plane. warned (elems2 a) \<and> placeBayer2D exif args a = Inr plane \<longrightarrow>
             processSourceNumpy exif args processSourceImageData (Some (U16_2D a))
               = Inr (warning, None, Some plane)
           \<and> run exif args processSourceImageData encode preview tools templateFile outputFilename
                 writeFile openinviewer (Some (U16_2D a))
               = encoded plane)
       \<and> (\<forall>a. warned (elems2 a) \<and> fits (int (ncols a)) (int (nrows a)) \<longrightarrow>
             bytesUncompressed \<noteq> 0
           \<and> (\<exists>plane. placeBayer2D exif args a = Inr plane
                \<and> nrows plane = nat (rows (rawDimensions exif))
                \<and> ncols plane = nat (columns (rawDimensions exif))
                \<and> (\<forall>r < nrows a. \<forall>c < ncols a.
                     at2 plane
                       (nat (calcAxisPos (int (nrows a)) (rows (rawDimensions exif)) (re_vertalign args)) + r)
                       (nat (calcAxisPos (int (ncols a)) (columns (rawDimensions exif)) (re_horzalign args)) + c)
                       = at2 a r c)))
       \<and> (\<forall>b plane. nchan b = 4 \<and> warned (elems3 b) \<and> placeBayer4Ch exif args b = Inr plane \<longrightarrow>
             processSourceNumpy exif args processSourceImageData (Some (U16_3D b))
               = Inr (warning, None, Some plane)
           \<and> run exif args processSourceImageData encode preview tools templateFile outputFilename
                 writeFile openinviewer (Some (U16_3D b))
               = encoded plane)
       \<and> (\<forall>b. nchan b = 4 \<and> warned (elems3 b) \<and> fits (int (ncols3 b) * 2) (int (nrows3 b) * 2) \<longrightarrow>
             bytesUncompressed \<noteq> 0
           \<and> (\<exists>plane. placeBayer4Ch exif args b = Inr plane
                \<and> nrows plane = nat (rows (rawDimensions exif))
                \<and> ncols plane = nat (columns (rawDimensions exif))
                \<and> (\<forall>r < nrows3 b. \<forall>c < ncols3 b. \<forall>k < 4.
                     at2 plane
                       (nat (calcAxisPos (int (nrows3 b) * 2) (rows (rawDimensions exif))
                               (re_vertalign args)) + 2 * r + k div 2)
                       (nat (calcAxisPos (int (ncols3 b) * 2) (columns (rawDimensions exif))
                               (re_horzalign args)) + 2 * c + k mod 2)
                       = at3 b r c k))))"
proof -
  let ?warning = "[PrintW ''has pixels < blackLevel'']"
  have flag: "\<forall>data fError msgs. validateBayeredNpyData exif data = Inr (fError, msgs) \<longrightarrow>
      (fError \<longleftrightarrow> list_ex (\<lambda>v. 2 ^ 14 \<le> unat v) data)"
    using validateBayeredNpyData_flag by blast
  have val: "validateBayeredNpyData exif data = Inr (False, ?warning)"
    if "data \<noteq> [] \<and> list_all (\<lambda>v. unat v < 2 ^ 14) data
          \<and> 0 < blackLevel exif \<and> list_ex (\<lambda>v. unat v < blackLevel exif) data" for data
    using that by (intro validateBayeredNpyData_warning) simp_all
  have p2: "processSourceNumpy exif args processSourceImageData (Some (U16_2D a))
              = Inr (?warning, None, Some plane)"
    if "validateBayeredNpyData exif (elems2 a) = Inr (False, ?warning)"
       "placeBayer2D exif args a = Inr plane" for a plane
    using that by (simp add: processSourceNumpy_def)
  have p4: "processSourceNumpy exif args processSourceImageData (Some (U16_3D b))
              = Inr (?warning, None, Some plane)"
    if "nchan b = 4" "validateBayeredNpyData exif (elems3 b) = Inr (False, ?warning)"
       "placeBayer4Ch exif args b = Inr plane" for b plane
    using that by (simp add: processSourceNumpy_def)
  have pos: "py_int (int_truediv (columns (rawDimensions exif) * rows (rawDimensions exif) * 14) 8) \<noteq> 0"
    if "0 < inputColumns" "inputColumns \<le> columns (rawDimensions exif)"
       "0 < inputRows" "inputRows \<le> rows (rawDimensions exif)" for inputColumns inputRows :: int
    using that by (intro bytesUncompressed_pos) simp_all
  have f2: "py_int (int_truediv (columns (rawDimensions exif) * rows (rawDimensions exif) * 14) 8) \<noteq> 0
      \<and> (\<exists>plane. placeBayer2D exif args a = Inr plane
                \<and> nrows plane = nat (rows (rawDimensions exif))
                \<and> ncols plane = nat (columns (rawDimensions exif))
                \<and> (\<forall>r < nrows a. \<forall>c < ncols a.
                     at2 plane
                       (nat (calcAxisPos (int (nrows a)) (rows (rawDimensions exif)) (re_vertalign args)) + r)
                       (nat (calcAxisPos (int (ncols a)) (columns (rawDimensions exif)) (re_horzalign args)) + c)
                       = at2 a r c))"
    if "elems2 a \<noteq> []" "int (ncols a) \<le> columns (rawDimensions exif)"
       "columns (rawDimensions exif) < 2 ^ 53" "int (nrows a) \<le> rows (rawDimensions exif)"
       "rows (rawDimensions exif) < 2 ^ 53" "blackLevel exif < 2 ^ 16" for a
    using pos [of "int (ncols a)" "int (nrows a)"] elems2_nonempty [OF that(1)]
      placeBayer2D_keeps_samples [OF that(6,2,3,4,5), of args] that
    by simp
  have f4: "py_int (int_truediv (columns (rawDimensions exif) * rows (rawDimensions exif) * 14) 8) \<noteq> 0
      \<and> (\<exists>plane. placeBayer4Ch exif args b = Inr plane
                \<and> nrows plane = nat (rows (rawDimensions exif))
                \<and> ncols plane = nat (columns (rawDimensions exif))
                \<and> (\<forall>r < nrows3 b. \<forall>c < ncols3 b. \<forall>k < 4.
                     at2 plane
                       (nat (calcAxisPos (int (nrows3 b) * 2) (rows (rawDimensions exif))
                               (re_vertalign args)) + 2 * r + k div 2)
                       (nat (calcAxisPos (int (ncols3 b) * 2) (columns (rawDimensions exif))
                               (re_horzalign args)) + 2 * c + k mod 2)
                       = at3 b r c k))"
    if "elems3 b \<noteq> []" "int (ncols3 b) * 2 \<le> columns (rawDimensions exif)"
       "columns (rawDimensions exif) < 2 ^ 53" "int (nrows3 b) * 2 \<le> rows (rawDimensions exif)"
       "rows (rawDimensions exif) < 2 ^ 53" "blackLevel exif < 2 ^ 16" for b
  proof -
    note ne = elems3_nonempty [OF that(1)]
    show ?thesis
      using pos [of "int (ncols3 b) * 2" "int (nrows3 b) * 2"] ne
        placeBayer4Ch_keeps_samples [OF that(6) ne [THEN conjunct1] ne [THEN conjunct2] that(2,3,4,5), of args]
        that
      by simp
  qed
  show ?thesis
    unfolding Let_def
    apply (intro conjI allI impI)
    subgoal using flag by blast
    subgoal using val by blast
    subgoal using p2 val by blast
    subgoal for a plane using run_plane [OF p2 [of a plane]] val by simp
    subgoal using f2 by blast
    subgoal using f2 by blast
    subgoal using p4 val by blast
    subgoal for b plane using run_plane [OF p4 [of b plane]] val by simp
    subgoal using f4 by blast
    subgoal using f4 by blast
    done
qed

theorem validateBayeredNpyData_warns_below_black_level_witness:
  "(\<exists>plane.
      processSourceNumpy
        \<lparr>rawDimensions = \<lparr>columns = 4, rows = 4\<rparr>, stripOffset = 8, fileOffsetToStripByteCount = 4,
         wbMultipliers = \<lparr>red = 2, blue = 3 / 2\<rparr>, blackLevel = 1008, embeddedJpgs = []\<rparr>
        \<lparr>re_horzalign = CENTER, re_vertalign = CENTER, src_srgbtolinear = True,
         src_wbmultipliers = None, src_grayscale = False\<rparr>
        (\<lambda>a. Inr ([], None :: unit option, None))
        (Some (U16_2D (array2_of [[5, 1], [2, 3]])))
        = Inr ([PrintW ''has pixels < blackLevel''], None, Some plane)
    \<and> nrows plane = 4 \<and> ncols plane = 4
    \<and> at2 plane 1 1 = 5 \<and> at2 plane 1 2 = 1 \<and> at2 plane 2 1 = 2 \<and> at2 plane 2 2 = 3)
   \<and> run
        \<lparr>rawDimensions = \<lparr>columns = 4, rows = 4\<rparr>, stripOffset = 8, fileOffsetToStripByteCount = 4,
         wbMultipliers = \<lparr>red = 2, blue = 3 / 2\<rparr>, blackLevel = 1008, embeddedJpgs = []\<rparr>
        \<lparr>re_horzalign = CENTER, re_vertalign = CENTER, src_srgbtolinear = True,
         src_wbmultipliers = None, src_grayscale = False\<rparr>
        (\<lambda>a. Inr ([], None :: unit option, None)) (\<lambda>plane. Inr ([], Some [1, 2, 3]))
        (\<lambda>img. Inr ([], None :: unit option))
        \<lparr>decodeDims = (\<lambda>b. None), encodeJpg = (\<lambda>u d q. []), placeholderJpg = (\<lambda>d s. [])\<rparr>
        (Some [0, 1, 2, 3, 4, 5, 6, 7]) (Inr ([], Some ''out.nef'')) (\<lambda>name bytes. True) None
        (Some (U16_2D (array2_of [[5, 1], [2, 3]])))
      = Inr ([PrintW ''has pixels < blackLevel'',
              PrintW ''No image available for embedded jpgs - will generate a placeholder image''],
             False, Some [0, 1, 2, 3, 3, 0, 0, 0, 1, 2, 3])
   \<and> (\<exists>plane.
        processSourceNumpy
          \<lparr>rawDimensions = \<lparr>columns = 4, rows = 4\<rparr>, stripOffset = 8, fileOffsetToStripByteCount = 4,
           wbMultipliers = \<lparr>red = 2, blue = 3 / 2\<rparr>, blackLevel = 1008, embeddedJpgs = []\<rparr>
          \<lparr>re_horzalign = CENTER, re_vertalign = CENTER, src_srgbtolinear = True,
           src_wbmultipliers = None, src_grayscale = False\<rparr>
          (\<lambda>a. Inr ([], None :: unit option, None))
          (Some (U16_3D \<lparr>nrows3 = 1, ncols3 = 1, nchan = 4, at3 = (\<lambda>r c k. of_nat k)\<rparr>))
          = Inr ([PrintW ''has pixels < blackLevel''], None, Some plane)
      \<and> at2 plane 1 1 = 0 \<and> at2 plane 1 2 = 1 \<and> at2 plane 2 1 = 2 \<and> at2 plane 2 2 = 3)"
proof -
  let ?exif = "\<lparr>rawDimensions = \<lparr>columns = 4, rows = 4\<rparr>, stripOffset = 8, fileOffsetToStripByteCount = 4,
         wbMultipliers = \<lparr>red = 2, blue = 3 / 2\<rparr>, blackLevel = 1008, embeddedJpgs = []\<rparr>"
  let ?args = "\<lparr>re_horzalign = CENTER, re_vertalign = CENTER, src_srgbtolinear = True,
         src_wbmultipliers = None, src_grayscale = False\<rparr>"
  let ?proc = "\<lambda>a :: u16 array3. Inr ([], None :: unit option, None)
                 :: py_error + message list \<times> unit option \<times> u16 array2 option"
  let ?encode = "\<lambda>plane :: u16 array2. Inr ([], Some [1, 2, 3])
                   :: py_error + message list \<times> byte list option"
  let ?preview = "\<lambda>img :: unit option. Inr ([], None :: unit option)
                    :: py_error + message list \<times> unit option"
  let ?tools = "\<lparr>decodeDims = (\<lambda>b. None), encodeJpg = (\<lambda>(u :: unit) d q. []),
                  placeholderJpg = (\<lambda>d s. [])\<rparr>"
  let ?tf = "Some [0, 1, 2, 3, 4, 5, 6, 7 :: byte]"
  let ?name = "Inr ([], Some ''out.nef'') :: py_error + message list \<times> string option"
  let ?saves = "\<lambda>(name :: string) (bytes :: byte list). True"
  let ?a = "array2_of [[5, 1], [2, 3 :: u16]]"
  let ?b = "\<lparr>nrows3 = 1, ncols3 = 1, nchan = 4, at3 = (\<lambda>r c k. of_nat k :: u16)\<rparr>"
  note t = validateBayeredNpyData_warns_below_black_level
    [where exif = ?exif and encode = ?encode and tools = ?tools and templateFile = ?tf
       and preview = ?preview and outputFilename = ?name and writeFile = ?saves
       and openinviewer = None and args = ?args and processSourceImageData = ?proc,
     unfolded Let_def]
  have pos: "calcAxisPos 2 4 CENTER = 1" using calcAxisPos_center [of 2 4] by simp
  have wa: "elems2 ?a \<noteq> [] \<and> list_all (\<lambda>v. unat v < 2 ^ 14) (elems2 ?a)
      \<and> 0 < blackLevel ?exif \<and> list_ex (\<lambda>v. unat v < blackLevel ?exif) (elems2 ?a)"
    by (simp add: elems2_2x2)
  have fa: "int (ncols ?a) \<le> columns (rawDimensions ?exif) \<and> columns (rawDimensions ?exif) < 2 ^ 53
      \<and> int (nrows ?a) \<le> rows (rawDimensions ?exif) \<and> rows (rawDimensions ?exif) < 2 ^ 53
      \<and> blackLevel ?exif < 2 ^ 16"
    by (simp add: array2_of_2x2)
  from t [THEN conjunct2, THEN conjunct2, THEN conjunct2, THEN conjunct1, rule_format, of ?a] wa fa
  obtain plane where p: "placeBayer2D ?exif ?args ?a = Inr plane"
    and shape: "nrows plane = nat (rows (rawDimensions ?exif))" "ncols plane = nat (columns (rawDimensions ?exif))"
    and sites: "\<forall>r < nrows ?a. \<forall>c < ncols ?a.
                     at2 plane
                       (nat (calcAxisPos (int (nrows ?a)) (rows (rawDimensions ?exif)) (re_vertalign ?args)) + r)
                       (nat (calcAxisPos (int (ncols ?a)) (columns (rawDimensions ?exif)) (re_horzalign ?args)) + c)
                       = at2 ?a r c"
    by blast
  have s: "at2 plane (Suc r) (Suc c) = at2 ?a r c" if "r < 2" "c < 2" for r c
    using sites [rule_format, of r c] that by (simp add: array2_of_2x2 pos del: calcAxisPos.simps)
  have vals: "at2 plane 1 1 = 5" "at2 plane 1 2 = 1" "at2 plane 2 1 = 2" "at2 plane 2 2 = 3"
    using s [of 0 0] s [of 0 "Suc 0"] s [of "Suc 0" 0] s [of "Suc 0" "Suc 0"]
    by (simp_all add: array2_of_2x2 numeral_2_eq_2)
  note th = t [THEN conjunct2, THEN conjunct2, THEN conjunct1, rule_format, of ?a plane]
  have proc: "processSourceNumpy ?exif ?args ?proc (Some (U16_2D ?a))
      = Inr ([PrintW ''has pixels < blackLevel''], None, Some plane)"
    using th wa p by blast
  have nef: "writeOutputNEF_newNefData ?exif [0, 1, 2, 3, 4, 5, 6, 7] [1, 2, 3]
      = Inr [0, 1, 2, 3, 3, 0, 0, 0, 1, 2, 3]"
    by (simp add: writeOutputNEF_newNefData_def slice_assign_def struct_pack_le32_def Let_def)
  have wr: "writeOutputNEF ?exif ?tools ?tf (?preview None) ?name ?saves None [1, 2, 3]
      = Inr ([PrintW ''No image available for embedded jpgs - will generate a placeholder image''],
             False, Some [0, 1, 2, 3, 3, 0, 0, 0, 1, 2, 3])"
    unfolding writeOutputNEF_def by (simp add: nef)
  have bu: "py_int (int_truediv (columns (rawDimensions ?exif) * rows (rawDimensions ?exif) * 14) 8) \<noteq> 0"
    using t [THEN conjunct2, THEN conjunct2, THEN conjunct2, THEN conjunct1, rule_format, of ?a] wa fa
    by blast
  have run: "run ?exif ?args ?proc ?encode ?preview ?tools ?tf ?name ?saves None (Some (U16_2D ?a))
      = Inr ([PrintW ''has pixels < blackLevel'',
              PrintW ''No image available for embedded jpgs - will generate a placeholder image''],
             False, Some [0, 1, 2, 3, 3, 0, 0, 0, 1, 2, 3])"
    using th [THEN conjunct2] wa p bu wr by simp
  have eb: "elems3 ?b = [0, 1, 2, 3]"
  proof -
    have "[0..<4] = [0, Suc 0, 2, 3]" by (simp add: upt_rec)
    then show ?thesis by (simp add: elems3_def)
  qed
  have wb: "nchan ?b = 4 \<and> elems3 ?b \<noteq> [] \<and> list_all (\<lambda>v. unat v < 2 ^ 14) (elems3 ?b)
      \<and> 0 < blackLevel ?exif \<and> list_ex (\<lambda>v. unat v < blackLevel ?exif) (elems3 ?b)"
    unfolding eb by simp
  have fb: "int (ncols3 ?b) * 2 \<le> columns (rawDimensions ?exif) \<and> columns (rawDimensions ?exif) < 2 ^ 53
      \<and> int (nrows3 ?b) * 2 \<le> rows (rawDimensions ?exif) \<and> rows (rawDimensions ?exif) < 2 ^ 53
      \<and> blackLevel ?exif < 2 ^ 16"
    by simp
  from t [THEN conjunct2, THEN conjunct2, THEN conjunct2, THEN conjunct2, THEN conjunct2, rule_format, of ?b]
    wb fb
  obtain plane4 where p4: "placeBayer4Ch ?exif ?args ?b = Inr plane4"
    and sites4: "\<forall>r < nrows3 ?b. \<forall>c < ncols3 ?b. \<forall>k < 4.
                     at2 plane4
                       (nat (calcAxisPos (int (nrows3 ?b) * 2) (rows (rawDimensions ?exif))
                               (re_vertalign ?args)) + 2 * r + k div 2)
                       (nat (calcAxisPos (int (ncols3 ?b) * 2) (columns (rawDimensions ?exif))
                               (re_horzalign ?args)) + 2 * c + k mod 2)
                       = at3 ?b r c k"
    by blast
  have s4: "at2 plane4 (Suc (k div 2)) (Suc (k mod 2)) = of_nat k" if "k < 4" for k
    using sites4 [rule_format, of 0 0 k] that by (simp add: pos del: calcAxisPos.simps)
  have k4: "at2 plane4 (Suc 0) (Suc 0) = 0" "at2 plane4 (Suc 0) (Suc (Suc 0)) = 1"
    "at2 plane4 (Suc (Suc 0)) (Suc 0) = 2" "at2 plane4 (Suc (Suc 0)) (Suc (Suc 0)) = 3"
    using s4 [of 0] s4 [of 1] s4 [of 2] s4 [of 3] by simp_all
  have vals4: "at2 plane4 1 1 = 0" "at2 plane4 1 2 = 1" "at2 plane4 2 1 = 2" "at2 plane4 2 2 = 3"
    using k4 by (simp_all add: numeral_2_eq_2)
  have proc4: "processSourceNumpy ?exif ?args ?proc (Some (U16_3D ?b))
      = Inr ([PrintW ''has pixels < blackLevel''], None, Some plane4)"
    using t [THEN conjunct2, THEN conjunct2, THEN conjunct2, THEN conjunct2, THEN conjunct1, rule_format,
        of ?b plane4] wb p4
    by blast
  show ?thesis
    using proc shape vals run proc4 vals4 by auto
qed

section \<open>Properties of the Bayer phase\<close>

text \<open>
  Claim C3 (scaling to 14 bits). The claim: \<open>src_ScaleNormalizedFloatTo14Bit\<close> maps a
  normalised sample \<open>v\<close> to \<open>round(v \<times> (16383 - blackLevel))\<close>. The code multiplies in
  \<open>float32\<close> and converts with \<open>astype(np.uint16)\<close>, which truncates: with
  \<open>blackLevel = 1008\<close> the sample \<open>3/8\<close> gives \<open>5765\<close> where the product is
  \<open>5765.625\<close> and its rounding \<open>5766\<close>, and the sample \<open>1/2\<close> gives \<open>7687\<close> where
  the product is \<open>7687.5\<close> and its rounding \<open>7688\<close>.
\<close>

theorem src_ScaleNormalizedFloatTo14Bit_rounds_down:
  "map_sum id rows_of
     (src_ScaleNormalizedFloatTo14Bit
        \<lparr>rawDimensions = \<lparr>columns = 2, rows = 2\<rparr>, stripOffset = 8, fileOffsetToStripByteCount = 4,
         wbMultipliers = \<lparr>red = 2, blue = 3 / 2\<rparr>, blackLevel = 1008, embeddedJpgs = []\<rparr>
        (array2_of [[3 / 8, 1], [0, 1 / 2]]))
     = Inr [[5765, 15375], [0, 7687]]
   \<and> py_round (3 / 8 * (16383 - 1008)) = 5766 \<and> py_round (1 / 2 * (16383 - 1008)) = 7688"
proof -
  let ?exif = "\<lparr>rawDimensions = \<lparr>columns = 2, rows = 2\<rparr>, stripOffset = 8, fileOffsetToStripByteCount = 4,
         wbMultipliers = \<lparr>red = 2, blue = 3 / 2\<rparr>, blackLevel = 1008, embeddedJpgs = []\<rparr>"
  let ?f = "\<lambda>v. fl32 (v * fl32 (of_int (16383 - int (blackLevel ?exif))))"
  have k: "fl32 (of_int (16383 - int (blackLevel ?exif))) = 15375"
    using fl32_of_int [of 15375] by simp
  have p1: "fl32 (3 / 8 * 15375) = 46125 / 8" by code_simp
  have p2: "fl32 15375 = 15375" using fl32_of_int [of 15375] by simp
  have p3: "fl32 0 = 0" using fl32_of_int [of 0] by simp
  have p4: "fl32 (1 / 2 * 15375) = 15375 / 2" by code_simp
  have f: "?f (3 / 8) = 46125 / 8" "?f 1 = 15375" "?f 0 = 0" "?f (1 / 2) = 15375 / 2"
    unfolding k using p1 p2 p3 p4 by simp_all
  have castable: "list_all castable_uint16 (elems2 (map_array2 ?f (array2_of [[3 / 8, 1], [0, 1 / 2]])))"
    unfolding elems2_map_array2 elems2_2x2 using f by (simp add: castable_uint16_def)
  have t: "py_int (46125 / 8) = 5765" "py_int 15375 = 15375" "py_int 0 = 0" "py_int (15375 / 2) = 7687"
    by code_simp+
  have c: "astype_uint16 (46125 / 8) = 5765" "astype_uint16 15375 = 15375" "astype_uint16 0 = 0"
    "astype_uint16 (15375 / 2) = 7687"
    unfolding astype_uint16_def t by simp_all
  have "src_ScaleNormalizedFloatTo14Bit ?exif (array2_of [[3 / 8, 1], [0, 1 / 2]])
      = Inr (map_array2 astype_uint16 (map_array2 ?f (array2_of [[3 / 8, 1], [0, 1 / 2]])))"
    using castable unfolding src_ScaleNormalizedFloatTo14Bit_def Let_def by simp
  moreover have "rows_of (map_array2 astype_uint16 (map_array2 ?f (array2_of [[3 / 8, 1], [0, 1 / 2]])))
      = [[5765, 15375], [0, 7687]]"
    unfolding map_array2_compose rows_of_map_array2_2x2 f c by simp
  moreover have "py_round (3 / 8 * (16383 - 1008)) = 5766" "py_round (1 / 2 * (16383 - 1008)) = 7688"
    by code_simp+
  ultimately show ?thesis by simp
qed

text \<open>
  Claim C3, amended: for an image whose samples lie between 0 and 1 and a \<open>blackLevel\<close>
  of at most 16383, \<open>src_ScaleNormalizedFloatTo14Bit\<close> returns an image of the same
  shape whose sample is the integer part of the \<open>float32\<close> product of the input sample
  and \<open>16383 - blackLevel\<close>. That value is at least the integer part of the exact
  product, at most its rounding, and at most \<open>16383 - blackLevel\<close>.
\<close>

theorem src_ScaleNormalizedFloatTo14Bit_truncates:assumes bl: "blackLevel exif \<le> 16383"
    and normalized: "\<forall>r<nrows img. \<forall>c<ncols img. 0 \<le> at2 img r c \<and> at2 img r c \<le> 1"
  shows "\<exists>out. src_ScaleNormalizedFloatTo14Bit exif img = Inr out
           \<and> nrows out = nrows img \<and> ncols out = ncols img
           \<and> (\<forall>r<nrows img. \<forall>c<ncols img.
                let x = at2 img r c * of_int (16383 - int (blackLevel exif)) in
                int (unat (at2 out r c)) = \<lfloor>fl32 x\<rfloor>
                \<and> \<lfloor>x\<rfloor> \<le> \<lfloor>fl32 x\<rfloor> \<and> \<lfloor>fl32 x\<rfloor> \<le> py_round x
                \<and> \<lfloor>fl32 x\<rfloor> \<le> 16383 - int (blackLevel exif))"
proof -
  define k where "k = 16383 - int (blackLevel exif)"
  define scaled where "scaled = map_array2 (\<lambda>v. fl32 (v * fl32 (of_int k))) img"
  have k: "0 \<le> k" "k \<le> 16383" using bl by (simp_all add: k_def)
  have site: "at2 scaled r c = fl32 (at2 img r c * of_int k)
      \<and> 0 \<le> fl32 (at2 img r c * of_int k) \<and> fl32 (at2 img r c * of_int k) \<le> of_int k"
    if "r < nrows img" "c < ncols img" for r c
    using scale14_bounds [OF bl, of "at2 img r c"] normalized that
    by (simp add: scaled_def k_def)
  have castable: "list_all castable_uint16 (elems2 scaled)"
    unfolding list_all_elems2 castable_uint16_def
  proof (intro allI impI)
    fix r c assume "r < nrows scaled" "c < ncols scaled"
    then have "r < nrows img" "c < ncols img" by (simp_all add: scaled_def)
    from site [OF this] k show "- 1 < at2 scaled r c \<and> at2 scaled r c < 65536" by simp
  qed
  then have res: "src_ScaleNormalizedFloatTo14Bit exif img = Inr (map_array2 astype_uint16 scaled)"
    by (simp add: src_ScaleNormalizedFloatTo14Bit_def Let_def scaled_def k_def)
  have "let x = at2 img r c * of_int k in
          int (unat (at2 (map_array2 astype_uint16 scaled) r c)) = \<lfloor>fl32 x\<rfloor>
          \<and> \<lfloor>x\<rfloor> \<le> \<lfloor>fl32 x\<rfloor> \<and> \<lfloor>fl32 x\<rfloor> \<le> py_round x \<and> \<lfloor>fl32 x\<rfloor> \<le> k"
    if rc: "r < nrows img" "c < ncols img" for r c
  proof -
    define x where "x = at2 img r c * of_int k"
    have s: "at2 scaled r c = fl32 x" "0 \<le> fl32 x" "fl32 x \<le> of_int k"
      using site [OF rc] by (simp_all add: x_def)
    have x0: "0 \<le> x" using normalized rc k by (simp add: x_def)
    have "x \<le> 1 * of_int k" unfolding x_def using normalized rc k by (intro mult_right_mono) simp_all
    then have x1: "x \<le> 2 ^ 22" using k by simp
    have "fl32 x < 65536" using s(3) k by simp
    then have "int (unat (astype_uint16 (fl32 x))) = \<lfloor>fl32 x\<rfloor>" using s(2) by (intro unat_astype_uint16) simp_all
    moreover have "\<lfloor>fl32 x\<rfloor> \<le> k" using s(3) by (simp add: floor_le_iff)
    ultimately show ?thesis using floor_fl32_bounds [OF x0 x1] s(1) by (simp add: x_def [symmetric])
  qed
  moreover have "nrows scaled = nrows img" "ncols scaled = ncols img" by (simp_all add: scaled_def)
  ultimately show ?thesis using res by (simp add: k_def)
qed

theorem src_ScaleNormalizedFloatTo14Bit_truncates_witness:
  "blackLevel \<lparr>rawDimensions = \<lparr>columns = 2, rows = 2\<rparr>, stripOffset = 8, fileOffsetToStripByteCount = 4,
         wbMultipliers = \<lparr>red = 2, blue = 3 / 2\<rparr>, blackLevel = 1008, embeddedJpgs = []\<rparr> \<le> 16383
   \<and> (\<exists>out. src_ScaleNormalizedFloatTo14Bit
          \<lparr>rawDimensions = \<lparr>columns = 2, rows = 2\<rparr>, stripOffset = 8, fileOffsetToStripByteCount = 4,
           wbMultipliers = \<lparr>red = 2, blue = 3 / 2\<rparr>, blackLevel = 1008, embeddedJpgs = []\<rparr>
          (array2_of [[3 / 8, 1], [0, 1 / 2]]) = Inr out
        \<and> nrows out = 2 \<and> ncols out = 2
        \<and> int (unat (at2 out 0 0)) = \<lfloor>fl32 (3 / 8 * 15375)\<rfloor>
        \<and> int (unat (at2 out 1 1)) = \<lfloor>fl32 (1 / 2 * 15375)\<rfloor>
        \<and> \<lfloor>fl32 (3 / 8 * 15375)\<rfloor> \<le> py_round (3 / 8 * 15375)
        \<and> \<lfloor>fl32 (1 / 2 * 15375)\<rfloor> \<le> 15375)"
proof -
  let ?exif = "\<lparr>rawDimensions = \<lparr>columns = 2, rows = 2\<rparr>, stripOffset = 8, fileOffsetToStripByteCount = 4,
         wbMultipliers = \<lparr>red = 2, blue = 3 / 2\<rparr>, blackLevel = 1008, embeddedJpgs = []\<rparr>"
  let ?img = "array2_of [[3 / 8, 1], [0, 1 / 2 :: rat]]"
  have bl: "blackLevel ?exif \<le> 16383" by simp
  have normalized: "\<forall>r<nrows ?img. \<forall>c<ncols ?img. 0 \<le> at2 ?img r c \<and> at2 ?img r c \<le> 1"
    by (auto simp add: array2_of_2x2 less_2_cases_iff)
  from src_ScaleNormalizedFloatTo14Bit_truncates [OF bl normalized]
  obtain out where out: "src_ScaleNormalizedFloatTo14Bit ?exif ?img = Inr out"
    and shape: "nrows out = nrows ?img" "ncols out = ncols ?img"
    and sites: "\<forall>r<nrows ?img. \<forall>c<ncols ?img.
                let x = at2 ?img r c * of_int (16383 - int (blackLevel ?exif)) in
                int (unat (at2 out r c)) = \<lfloor>fl32 x\<rfloor>
                \<and> \<lfloor>x\<rfloor> \<le> \<lfloor>fl32 x\<rfloor> \<and> \<lfloor>fl32 x\<rfloor> \<le> py_round x
                \<and> \<lfloor>fl32 x\<rfloor> \<le> 16383 - int (blackLevel ?exif)"
    by blast
  have s00: "int (unat (at2 out 0 0)) = \<lfloor>fl32 (3 / 8 * 15375)\<rfloor>
      \<and> \<lfloor>fl32 (3 / 8 * 15375)\<rfloor> \<le> py_round (3 / 8 * 15375)"
    using sites [rule_format, of 0 0] by (simp add: array2_of_2x2 Let_def)
  have s11: "int (unat (at2 out 1 1)) = \<lfloor>fl32 (1 / 2 * 15375)\<rfloor>
      \<and> \<lfloor>fl32 (1 / 2 * 15375)\<rfloor> \<le> 15375"
    using sites [rule_format, of "Suc 0" "Suc 0"] by (simp add: array2_of_2x2 Let_def)
  show ?thesis using bl out shape s00 s11 by (simp add: array2_of_2x2)
qed




section \<open>Properties of the FULL resize\<close>




end
